theory Spec2Isabelle
  imports Complex_Main "HOL-Library.Word"
begin

section \<open>The Nyquist series renderer (src/chart/opengl/nyquistseriesrenderer.cpp)\<close>

text \<open>
  The renderer folds the bins of a measurement source into octave bands, turns every closed
  band into a complex control point and writes every finished spline segment as a record of
  twelve floats into the vertex array \<open>m_vertices\<close>.

  Conventions of the embedding:
  \<^item> \<open>unsigned int\<close> is \<open>32 word\<close>: \<open>+\<close> and \<open>*\<close> wrap, \<open>unat\<close> reads the value.
  \<^item> \<open>float\<close> is a type parameter \<open>'f\<close>. The source never inspects a float; it adds,
    divides and copies. Every arithmetic operator the source applies is a field of the record
    \<open>arith\<close>, so each theorem holds for every meaning of these operators, IEEE 754 included.
  \<^item> The struct \<open>complex\<close> is declared outside this file; the source reads its public data
    members \<open>real\<close> and \<open>imag\<close> and applies \<open>+=\<close>, \<open>/\<close>, \<open>/=\<close>, \<open>*=\<close> and \<open>abs()\<close>
    to it. The two members are the record \<open>complex_c\<close>, the operators are fields of
    \<open>arith\<close>.
  \<^item> An access to \<open>m_vertices\<close> outside its bounds and a call through a null pointer are
    undefined behaviour in C++; here they are the error values of a sum type.
\<close>

type_synonym uint = "32 word"

record 'f complex_c =
  real_c :: 'f
  imag_c :: 'f

record 'f arith =
  float_zero :: 'f
  float_add :: "'f \<Rightarrow> 'f \<Rightarrow> 'f"
  float_div_count :: "'f \<Rightarrow> uint \<Rightarrow> 'f"
  complex_zero :: "'f complex_c"
  complex_add :: "'f complex_c \<Rightarrow> 'f complex_c \<Rightarrow> 'f complex_c"
  complex_div_count :: "'f complex_c \<Rightarrow> uint \<Rightarrow> 'f complex_c"
  complex_abs :: "'f complex_c \<Rightarrow> 'f"
  complex_div :: "'f complex_c \<Rightarrow> 'f \<Rightarrow> 'f complex_c"
  complex_mul :: "'f complex_c \<Rightarrow> 'f \<Rightarrow> 'f complex_c"

text \<open>
  \<open>float_zero\<close> is the literal \<open>0\<close> or \<open>0.f\<close> stored into a float, \<open>complex_zero\<close> the
  \<open>complex\<close> made from the literal \<open>0\<close>; \<open>float_add\<close> and \<open>complex_add\<close> are \<open>+=\<close>;
  \<open>float_div_count\<close> and \<open>complex_div_count\<close> are \<open>/\<close> with the \<open>unsigned int\<close> band
  count on the right; \<open>complex_div\<close> is \<open>/=\<close> and \<open>complex_mul\<close> is \<open>*=\<close> with a float
  on the right.
\<close>

datatype error = OutOfRange | NullPointer

subsection \<open>The measurement source\<close>

text \<open>The object behind \<open>m_source\<close>: \<open>active()\<close>, \<open>size()\<close>, \<open>phase(i)\<close>,
  \<open>magnitudeRaw(i)\<close> and \<open>coherence(i)\<close>.\<close>

record 'f source =
  active :: bool
  size_s :: uint
  phase :: "uint \<Rightarrow> 'f complex_c"
  magnitudeRaw :: "uint \<Rightarrow> 'f"
  coherence :: "uint \<Rightarrow> 'f"

subsection \<open>The band accumulator\<close>

text \<open>The local struct \<open>NyquistSplineValue\<close> with its two \<open>operator+=\<close> and \<open>reset()\<close>.\<close>

record 'f NyquistSplineValue =
  m_phase :: "'f complex_c"
  m_magnitude :: 'f

definition add_phase ::
  "'f arith \<Rightarrow> 'f NyquistSplineValue \<Rightarrow> 'f complex_c \<Rightarrow> 'f NyquistSplineValue" where
  "add_phase ar v rh = v\<lparr>m_phase := complex_add ar (m_phase v) rh\<rparr>"

definition add_magnitude ::
  "'f arith \<Rightarrow> 'f NyquistSplineValue \<Rightarrow> 'f \<Rightarrow> 'f NyquistSplineValue" where
  "add_magnitude ar v rh = v\<lparr>m_magnitude := float_add ar (m_magnitude v) rh\<rparr>"

definition reset :: "'f arith \<Rightarrow> 'f NyquistSplineValue \<Rightarrow> 'f NyquistSplineValue" where
  "reset ar v = v\<lparr>m_phase := complex_zero ar, m_magnitude := float_zero ar\<rparr>"

subsection \<open>What the three lambdas capture\<close>

text \<open>
  The lambdas of \<open>renderSeries\<close> capture by reference the locals \<open>i\<close>, \<open>verticiesCount\<close>,
  \<open>value\<close> and \<open>coherence\<close>, and through \<open>this\<close> the vertex array. \<open>fr_critical\<close> collects
  the messages given to \<open>qCritical\<close>.
\<close>

record 'f frame =
  fr_vertices :: "'f list"
  fr_i :: uint
  fr_verticiesCount :: uint
  fr_value :: "'f NyquistSplineValue"
  fr_coherence :: 'f
  fr_critical :: "string list"

text \<open>An array of four elements, as \<open>collected\<close> receives them.\<close>

datatype 'a array4 = Array4 'a 'a 'a 'a

fun at4 :: "'a array4 \<Rightarrow> nat \<Rightarrow> 'a" where
  "at4 (Array4 a b c d) n = (if n = 0 then a else if n = 1 then b else if n = 2 then c else d)"

definition accumulate :: "'f arith \<Rightarrow> 'f source \<Rightarrow> uint \<Rightarrow> 'f frame \<Rightarrow> 'f frame" where
  "accumulate ar src idx fr =
     (let fr1 = fr\<lparr>fr_value := add_phase ar (fr_value fr) (phase src idx)\<rparr>;
          fr2 = fr1\<lparr>fr_value := add_magnitude ar (fr_value fr1) (magnitudeRaw src idx)\<rparr>
      in fr2\<lparr>fr_coherence := float_add ar (fr_coherence fr2) (coherence src idx)\<rparr>)"

definition beforeSpline ::
  "'f arith \<Rightarrow> 'f NyquistSplineValue \<Rightarrow> 'f \<Rightarrow> uint \<Rightarrow> 'f complex_c" where
  "beforeSpline ar v unused count =
     (let c = complex_div_count ar (m_phase v) count;
          c1 = complex_div ar c (complex_abs ar c);
          c2 = complex_mul ar c1 (float_div_count ar (m_magnitude v) count)
      in c2)"

text \<open>One element store into the vertex array; outside the array it is undefined behaviour.\<close>

definition store :: "'f list \<Rightarrow> nat \<Rightarrow> 'f \<Rightarrow> error + 'f list" where
  "store xs n v = (if n < length xs then Inr (xs[n := v]) else Inl OutOfRange)"

fun store_all :: "(nat \<times> 'f) list \<Rightarrow> 'f list \<Rightarrow> error + 'f list" where
  "store_all [] xs = Inr xs"
| "store_all ((n, v) # ws) xs =
     (case store xs n v of Inl e \<Rightarrow> Inl e | Inr xs' \<Rightarrow> store_all ws xs')"

text \<open>
  The twelve stores of \<open>collected\<close>, in the order of the source. The indices \<open>i + 0\<close> ..
  \<open>i + 7\<close> are computed in \<open>unsigned int\<close>; the \<open>memcpy\<close> of \<open>4 * 4\<close> bytes copies the
  four floats of \<open>c\<close> to the address \<open>m_vertices.data() + i + 8\<close>, which is pointer
  arithmetic.
\<close>

definition segment_stores :: "uint \<Rightarrow> 'f complex_c array4 \<Rightarrow> 'f array4 \<Rightarrow> (nat \<times> 'f) list" where
  "segment_stores i ac c =
     [(unat (i + 0), real_c (at4 ac 0)),
      (unat (i + 1), real_c (at4 ac 1)),
      (unat (i + 2), real_c (at4 ac 2)),
      (unat (i + 3), real_c (at4 ac 3)),
      (unat (i + 4), imag_c (at4 ac 0)),
      (unat (i + 5), imag_c (at4 ac 1)),
      (unat (i + 6), imag_c (at4 ac 2)),
      (unat (i + 7), imag_c (at4 ac 3)),
      (unat i + 8 + 0, at4 c 0),
      (unat i + 8 + 1, at4 c 1),
      (unat i + 8 + 2, at4 c 2),
      (unat i + 8 + 3, at4 c 3)]"

text \<open>\<open>collected\<close>. Its first two parameters are unnamed in the source and unused.\<close>

definition collected ::
  "'f arith \<Rightarrow> uint \<Rightarrow> 'f \<Rightarrow> 'f \<Rightarrow> 'f complex_c array4 \<Rightarrow> 'f array4 \<Rightarrow> 'f frame
     \<Rightarrow> error + 'f frame" where
  "collected ar maxBufferSize f1 f2 ac c fr =
     (if fr_i fr > maxBufferSize
      then Inr (fr\<lparr>fr_critical := fr_critical fr @ [''out of range'']\<rparr>)
      else
        (case store_all (segment_stores (fr_i fr) ac c) (fr_vertices fr) of
           Inl e \<Rightarrow> Inl e
         | Inr vs \<Rightarrow>
             Inr (fr\<lparr>fr_vertices := vs,
                     fr_verticiesCount := fr_verticiesCount fr + 1,
                     fr_i := fr_i fr + 12,
                     fr_value := reset ar (fr_value fr),
                     fr_coherence := float_zero ar\<rparr>)))"

subsection \<open>The octave iteration\<close>

text \<open>
  \<open>iterateForSpline\<close> is a member template of the base class and is declared outside this
  file. It receives the points per octave, the addresses of \<open>value\<close> and \<open>coherence\<close> and
  the three lambdas, and it can reach \<open>m_source\<close>. It is a parameter of the model: a tree of
  the calls it makes, where each result it gets back selects the rest of the tree. It can call
  \<open>accumulate(i)\<close>, call \<open>beforeSpline(value, *coherence, count)\<close> and use the result, call
  \<open>collected(f1, f2, ac, c)\<close>, and read or write the two accumulators through the pointers.
  The locals \<open>i\<close> and \<open>verticiesCount\<close> and the vertex array are reached only by
  \<open>collected\<close>. The tree is well-founded: the iteration returns.
\<close>

datatype 'f driver =
    Finish
  | CallAccumulate uint "'f driver"
  | CallBeforeSpline uint "'f complex_c \<Rightarrow> 'f driver"
  | CallCollected 'f 'f "'f complex_c array4" "'f array4" "'f driver"
  | ReadAccumulators "'f NyquistSplineValue \<Rightarrow> 'f \<Rightarrow> 'f driver"
  | WriteAccumulators "'f NyquistSplineValue" 'f "'f driver"

primrec iterate ::
  "'f arith \<Rightarrow> 'f source \<Rightarrow> uint \<Rightarrow> 'f driver \<Rightarrow> 'f frame \<Rightarrow> error + 'f frame" where
  "iterate ar src maxBufferSize Finish fr = Inr fr"
| "iterate ar src maxBufferSize (CallAccumulate idx k) fr =
     iterate ar src maxBufferSize k (accumulate ar src idx fr)"
| "iterate ar src maxBufferSize (CallBeforeSpline count k) fr =
     iterate ar src maxBufferSize
       (k (beforeSpline ar (fr_value fr) (fr_coherence fr) count)) fr"
| "iterate ar src maxBufferSize (CallCollected f1 f2 ac c k) fr =
     (case collected ar maxBufferSize f1 f2 ac c fr of
        Inl e \<Rightarrow> Inl e
      | Inr fr' \<Rightarrow> iterate ar src maxBufferSize k fr')"
| "iterate ar src maxBufferSize (ReadAccumulators k) fr =
     iterate ar src maxBufferSize (k (fr_value fr) (fr_coherence fr)) fr"
| "iterate ar src maxBufferSize (WriteAccumulators v coh k) fr =
     iterate ar src maxBufferSize k (fr\<lparr>fr_value := v, fr_coherence := coh\<rparr>)"

subsection \<open>The renderer object\<close>

text \<open>
  \<open>synchronize\<close> asks the parent of the item for its dynamic type: the parent is absent
  (a null pointer), a \<open>NyquistPlot\<close> with its three settings, or an object of another class.
\<close>

record 'f NyquistPlot =
  pointsPerOctave :: uint
  coherence_p :: bool
  coherenceThreshold :: 'f

datatype 'f qobject = IsNyquistPlot "'f NyquistPlot" | OtherObject

record 'f item =
  parent :: "'f qobject option"

text \<open>
  The members the source takes from its base class, which is declared outside this file. The
  fields \<open>gl_\<close> record what reaches OpenGL: the size in floats of the store made by the last
  \<open>glBufferData\<close>, the floats copied by the last \<open>glBufferSubData\<close>, the vertex count of the
  last \<open>glDrawArrays\<close> and the two coherence uniforms. Buffer and vertex-array names, the
  attribute layout and the other uniforms are left out.
\<close>

record 'f XYSeriesRenderer =
  m_item :: "'f item option"
  m_source :: "'f source option"
  m_vertices :: "'f list"
  m_refreshBuffers :: bool
  critical :: "string list"
  gl_allocated :: nat
  gl_uploaded :: "'f list"
  gl_drawn :: uint
  gl_coherenceThreshold :: 'f
  gl_coherenceAlpha :: bool

text \<open>The three members the constructor of \<open>NyquistSeriesRenderer\<close> initialises, next to
  the base-class part \<open>xy\<close>.\<close>

record 'f NyquistSeriesRenderer =
  xy :: "'f XYSeriesRenderer"
  m_pointsPerOctave :: uint
  m_coherenceThreshold :: 'f
  m_coherence :: bool

text \<open>\<open>resize\<close> of the vertex array: the elements kept are a prefix, new ones are zero.\<close>

definition resize :: "nat \<Rightarrow> 'f \<Rightarrow> 'f list \<Rightarrow> 'f list" where
  "resize n z xs = take n xs @ replicate (n - length xs) z"

text \<open>Lines 49 to 54 of \<open>renderSeries\<close>: the capacity and the conditional resize.\<close>

definition maxBufferSize_of :: "'f NyquistSeriesRenderer \<Rightarrow> uint" where
  "maxBufferSize_of r = m_pointsPerOctave r * 12 * 12"

definition resizeVertices ::
  "'f arith \<Rightarrow> uint \<Rightarrow> 'f XYSeriesRenderer \<Rightarrow> 'f XYSeriesRenderer" where
  "resizeVertices ar maxBufferSize b =
     (if length (m_vertices b) \<noteq> unat maxBufferSize
      then b\<lparr>m_vertices := resize (unat maxBufferSize) (float_zero ar) (m_vertices b),
             m_refreshBuffers := True\<rparr>
      else b)"

text \<open>The locals as \<open>renderSeries\<close> declares them before the iteration starts.\<close>

definition initial_frame :: "'f arith \<Rightarrow> 'f list \<Rightarrow> 'f frame" where
  "initial_frame ar vs =
     \<lparr>fr_vertices = vs, fr_i = 0, fr_verticiesCount = 0,
      fr_value = \<lparr>m_phase = complex_zero ar, m_magnitude = float_zero ar\<rparr>,
      fr_coherence = float_zero ar, fr_critical = []\<rparr>"

text \<open>
  The statements after the iteration: the two coherence uniforms, \<open>glBufferData\<close> when the
  buffers are refreshed, \<open>glBufferSubData\<close> of \<open>12 * sizeof(GLfloat) * verticiesCount\<close> bytes
  read from \<open>m_vertices.data()\<close>, \<open>glDrawArrays\<close>, and the cleared refresh flag. Reading more
  floats than the array holds is undefined behaviour.
\<close>

definition upload ::
  "'f NyquistSeriesRenderer \<Rightarrow> uint \<Rightarrow> 'f XYSeriesRenderer \<Rightarrow> 'f frame
     \<Rightarrow> error + 'f NyquistSeriesRenderer" where
  "upload r maxBufferSize b fr =
     (if length (fr_vertices fr) < 12 * unat (fr_verticiesCount fr) then Inl OutOfRange
      else Inr (r\<lparr>xy := b
        \<lparr>m_vertices := fr_vertices fr,
         critical := critical b @ fr_critical fr,
         gl_coherenceThreshold := m_coherenceThreshold r,
         gl_coherenceAlpha := m_coherence r,
         gl_allocated := (if m_refreshBuffers b then unat maxBufferSize else gl_allocated b),
         gl_uploaded := take (12 * unat (fr_verticiesCount fr)) (fr_vertices fr),
         gl_drawn := fr_verticiesCount fr,
         m_refreshBuffers := False\<rparr>\<rparr>))"

definition renderSeries ::
  "'f arith \<Rightarrow> ('f source \<Rightarrow> uint \<Rightarrow> 'f driver) \<Rightarrow> 'f NyquistSeriesRenderer
     \<Rightarrow> error + 'f NyquistSeriesRenderer" where
  "renderSeries ar iterateForSpline r =
     (case m_source (xy r) of
        None \<Rightarrow> Inl NullPointer
      | Some src \<Rightarrow>
          if \<not> active src \<or> size_s src = 0 then Inr r
          else
            (let maxBufferSize = maxBufferSize_of r;
                 b = resizeVertices ar maxBufferSize (xy r)
             in case iterate ar src maxBufferSize
                       (iterateForSpline src (m_pointsPerOctave r))
                       (initial_frame ar (m_vertices b)) of
                  Inl e \<Rightarrow> Inl e
                | Inr fr \<Rightarrow> upload r maxBufferSize b fr))"

text \<open>
  \<open>synchronize\<close>. The base-class \<open>synchronize\<close> is declared outside this file and works on
  the base-class part only; it is the parameter \<open>xy_synchronize\<close>.
\<close>

definition synchronize ::
  "('f item option \<Rightarrow> 'f XYSeriesRenderer \<Rightarrow> 'f XYSeriesRenderer) \<Rightarrow> 'f item option
     \<Rightarrow> 'f NyquistSeriesRenderer \<Rightarrow> error + 'f NyquistSeriesRenderer" where
  "synchronize xy_synchronize item r =
     (let r1 = r\<lparr>xy := xy_synchronize item (xy r)\<rparr>
      in case m_item (xy r1) of
           None \<Rightarrow> Inl NullPointer
         | Some it \<Rightarrow>
             (case parent it of
                Some (IsNyquistPlot plot) \<Rightarrow>
                  Inr (r1\<lparr>m_pointsPerOctave := pointsPerOctave plot,
                          m_coherence := coherence_p plot,
                          m_coherenceThreshold := coherenceThreshold plot\<rparr>)
              | _ \<Rightarrow> Inr r1))"

subsection \<open>Names of the specification\<close>

text \<open>The specification writes the control point with \<open>unitPhase z = z / |z|\<close>.\<close>

definition unitPhase :: "'f arith \<Rightarrow> 'f complex_c \<Rightarrow> 'f complex_c" where
  "unitPhase ar z = complex_div ar z (complex_abs ar z)"

subsection \<open>An instance for running the model\<close>

text \<open>
  The operators read over the real numbers, to run the model on concrete inputs. The
  quotient by zero of the real numbers is not that of a float, so nothing below that is about
  a division is shown through this instance.
\<close>

definition exact_arith :: "real arith" where
  "exact_arith =
     \<lparr>float_zero = 0,
      float_add = (\<lambda>a b. a + b),
      float_div_count = (\<lambda>a n. a / of_nat (unat n)),
      complex_zero = \<lparr>real_c = 0, imag_c = 0\<rparr>,
      complex_add = (\<lambda>a b. \<lparr>real_c = real_c a + real_c b, imag_c = imag_c a + imag_c b\<rparr>),
      complex_div_count =
        (\<lambda>a n. \<lparr>real_c = real_c a / of_nat (unat n), imag_c = imag_c a / of_nat (unat n)\<rparr>),
      complex_abs = (\<lambda>a. sqrt (real_c a * real_c a + imag_c a * imag_c a)),
      complex_div = (\<lambda>a x. \<lparr>real_c = real_c a / x, imag_c = imag_c a / x\<rparr>),
      complex_mul = (\<lambda>a x. \<lparr>real_c = real_c a * x, imag_c = imag_c a * x\<rparr>)\<rparr>"

subsection \<open>Two runs side by side\<close>

text \<open>
  Two frames agree when they differ at most in the vertex array from the write cursor on.
  The cursor is twelve times the vertex counter, in \<open>unsigned int\<close>.
\<close>

definition agree :: "'f frame \<Rightarrow> 'f frame \<Rightarrow> bool" where
  "agree fr1 fr2 \<longleftrightarrow>
     fr_i fr1 = fr_i fr2 \<and> fr_verticiesCount fr1 = fr_verticiesCount fr2 \<and>
     fr_value fr1 = fr_value fr2 \<and> fr_coherence fr1 = fr_coherence fr2 \<and>
     fr_critical fr1 = fr_critical fr2 \<and>
     length (fr_vertices fr1) = length (fr_vertices fr2) \<and>
     (\<forall>j < unat (fr_i fr1). fr_vertices fr1 ! j = fr_vertices fr2 ! j)"

definition cursor_counts :: "'f frame \<Rightarrow> bool" where
  "cursor_counts fr \<longleftrightarrow> fr_i fr = 12 * fr_verticiesCount fr"

subsection \<open>Concrete inputs\<close>

text \<open>A renderer as the constructor leaves it (all three settings zero), with an active
  source of four bins, and a base-class \<open>synchronize\<close> that stores the item.\<close>

definition example_source :: "real source" where
  "example_source =
     \<lparr>active = True, size_s = 4, phase = (\<lambda>i. \<lparr>real_c = 1, imag_c = 0\<rparr>),
      magnitudeRaw = (\<lambda>i. 1), coherence = (\<lambda>i. 1)\<rparr>"

definition example_renderer :: "real NyquistSeriesRenderer" where
  "example_renderer =
     \<lparr>xy = \<lparr>m_item = None, m_source = Some example_source, m_vertices = [],
            m_refreshBuffers = False, critical = [], gl_allocated = 0, gl_uploaded = [],
            gl_drawn = 0, gl_coherenceThreshold = 0, gl_coherenceAlpha = False\<rparr>,
      m_pointsPerOctave = 0, m_coherenceThreshold = 0, m_coherence = False\<rparr>"

text \<open>A frame with leftover sums in its accumulators, and one segment.\<close>

definition example_frame :: "real frame" where
  "example_frame =
     \<lparr>fr_vertices = [0, 0, 0, 0, 0, 0, 0, 0, 0, 0, 0, 0, 0, 0, 0, 0, 0, 0, 0, 0, 0, 0, 0, 0],
      fr_i = 12, fr_verticiesCount = 1,
      fr_value = \<lparr>m_phase = \<lparr>real_c = 3, imag_c = 4\<rparr>, m_magnitude = 5\<rparr>,
      fr_coherence = 2, fr_critical = []\<rparr>"

definition example_ac :: "real complex_c array4" where
  "example_ac =
     Array4 \<lparr>real_c = 1, imag_c = 5\<rparr> \<lparr>real_c = 2, imag_c = 6\<rparr>
            \<lparr>real_c = 3, imag_c = 7\<rparr> \<lparr>real_c = 4, imag_c = 8\<rparr>"

definition example_c :: "real array4" where
  "example_c = Array4 9 10 11 12"

text \<open>An iteration that completes \<open>n\<close> segments, each after folding the bin \<open>0\<close>.\<close>

primrec segments :: "nat \<Rightarrow> real driver" where
  "segments 0 = Finish"
| "segments (Suc n) = CallAccumulate 0 (CallCollected 0 0 example_ac example_c (segments n))"

text \<open>
  A renderer whose points per octave make the product \<open>m_pointsPerOctave * 12 * 12\<close> pass
  \<open>2 ^ 32\<close>, an iteration of two segments, and the size of the vertex array a pass leaves.
\<close>

definition wide_renderer :: "real NyquistSeriesRenderer" where
  "wide_renderer = example_renderer\<lparr>m_pointsPerOctave := 29826162\<rparr>"

definition two_segments :: "real source \<Rightarrow> uint \<Rightarrow> real driver" where
  "two_segments src ppo = segments 2"

definition vertices_size_after :: "error + 'f NyquistSeriesRenderer \<Rightarrow> error + nat" where
  "vertices_size_after res =
     (case res of Inl e \<Rightarrow> Inl e | Inr r \<Rightarrow> Inr (length (m_vertices (xy r))))"

text \<open>
  An arithmetic with an undefined value: a float is a real number or \<open>None\<close>, a quotient
  by zero is \<open>None\<close>, and every operator with an undefined operand gives \<open>None\<close>. It
  serves to show that what is assumed of the operators below can hold. The source next to it
  has two bins of opposite phase and equal magnitude.
\<close>

definition opt_add :: "real option \<Rightarrow> real option \<Rightarrow> real option" where
  "opt_add a b = (case (a, b) of (Some x, Some y) \<Rightarrow> Some (x + y) | _ \<Rightarrow> None)"

definition opt_mul :: "real option \<Rightarrow> real option \<Rightarrow> real option" where
  "opt_mul a b = (case (a, b) of (Some x, Some y) \<Rightarrow> Some (x * y) | _ \<Rightarrow> None)"

definition opt_div :: "real option \<Rightarrow> real option \<Rightarrow> real option" where
  "opt_div a b =
     (case (a, b) of
        (Some x, Some y) \<Rightarrow> (if y = 0 then None else Some (x / y))
      | _ \<Rightarrow> None)"

definition opt_abs :: "real option complex_c \<Rightarrow> real option" where
  "opt_abs a =
     (case (real_c a, imag_c a) of
        (Some x, Some y) \<Rightarrow> Some (sqrt (x * x + y * y))
      | _ \<Rightarrow> None)"

definition undefined_arith :: "real option arith" where
  "undefined_arith =
     \<lparr>float_zero = Some 0,
      float_add = opt_add,
      float_div_count = (\<lambda>a n. opt_div a (Some (of_nat (unat n)))),
      complex_zero = \<lparr>real_c = Some 0, imag_c = Some 0\<rparr>,
      complex_add =
        (\<lambda>a b. \<lparr>real_c = opt_add (real_c a) (real_c b),
                 imag_c = opt_add (imag_c a) (imag_c b)\<rparr>),
      complex_div_count =
        (\<lambda>a n. \<lparr>real_c = opt_div (real_c a) (Some (of_nat (unat n))),
                 imag_c = opt_div (imag_c a) (Some (of_nat (unat n)))\<rparr>),
      complex_abs = opt_abs,
      complex_div = (\<lambda>a x. \<lparr>real_c = opt_div (real_c a) x, imag_c = opt_div (imag_c a) x\<rparr>),
      complex_mul = (\<lambda>a x. \<lparr>real_c = opt_mul (real_c a) x, imag_c = opt_mul (imag_c a) x\<rparr>)\<rparr>"

definition cancelling_source :: "real option source" where
  "cancelling_source =
     \<lparr>active = True, size_s = 2,
      phase = (\<lambda>i. if i = 0 then \<lparr>real_c = Some 1, imag_c = Some 0\<rparr>
                   else \<lparr>real_c = Some (- 1), imag_c = Some 0\<rparr>),
      magnitudeRaw = (\<lambda>i. Some 1), coherence = (\<lambda>i. Some 1)\<rparr>"

definition cancelling_frame :: "real option frame" where
  "cancelling_frame =
     fold (accumulate undefined_arith cancelling_source) [0, 1]
       (initial_frame undefined_arith [])"

definition store_item ::
  "real item option \<Rightarrow> real XYSeriesRenderer \<Rightarrow> real XYSeriesRenderer" where
  "store_item item b = b\<lparr>m_item := item\<rparr>"

section \<open>Stores into the vertex array\<close>

lemma store_all_Cons:
  "store_all ((n, v) # ws) xs =
     (if n < length xs then store_all ws (xs[n := v]) else Inl OutOfRange)"
  by (simp add: store_def)

lemma store_all_length: "store_all ws xs = Inr ys \<Longrightarrow> length ys = length xs"
proof (induction ws arbitrary: xs)
  case Nil
  then show ?case by simp
next
  case (Cons w ws)
  obtain n v where w: "w = (n, v)" by (cases w)
  from Cons.prems have "n < length xs" and "store_all ws (xs[n := v]) = Inr ys"
    unfolding w store_all_Cons by (simp_all split: if_splits)
  from Cons.IH[OF this(2)] show ?case by simp
qed

lemma store_all_Inr_iff:
  "(\<exists>ys. store_all ws xs = Inr ys) \<longleftrightarrow> (\<forall>n \<in> fst ` set ws. n < length xs)"
proof (induction ws arbitrary: xs)
  case Nil
  show ?case by simp
next
  case (Cons w ws)
  obtain n v where w: "w = (n, v)" by (cases w)
  show ?case
  proof (cases "n < length xs")
    case True
    then show ?thesis using Cons.IH[of "xs[n := v]"] unfolding w store_all_Cons by simp
  next
    case False
    then show ?thesis unfolding w store_all_Cons by simp
  qed
qed

lemma store_all_same_length:
  "length xs1 = length xs2 \<Longrightarrow> store_all ws xs1 = Inl e \<Longrightarrow> store_all ws xs2 = Inl e"
proof (induction ws arbitrary: xs1 xs2)
  case Nil
  then show ?case by simp
next
  case (Cons w ws)
  obtain n v where w: "w = (n, v)" by (cases w)
  show ?case
  proof (cases "n < length xs1")
    case True
    with Cons.prems have "store_all ws (xs1[n := v]) = Inl e" unfolding w store_all_Cons by simp
    moreover have "length (xs1[n := v]) = length (xs2[n := v])" using Cons.prems(1) by simp
    ultimately have "store_all ws (xs2[n := v]) = Inl e" using Cons.IH by blast
    with True Cons.prems(1) show ?thesis unfolding w store_all_Cons by simp
  next
    case False
    with Cons.prems show ?thesis unfolding w store_all_Cons by simp
  qed
qed

lemma store_all_agree:
  "store_all ws xs1 = Inr ys1 \<Longrightarrow> store_all ws xs2 = Inr ys2 \<Longrightarrow> length xs1 = length xs2 \<Longrightarrow>
   j \<in> fst ` set ws \<or> xs1 ! j = xs2 ! j \<Longrightarrow> ys1 ! j = ys2 ! j"
proof (induction ws arbitrary: xs1 xs2)
  case Nil
  then show ?case by simp
next
  case (Cons w ws)
  obtain n v where w: "w = (n, v)" by (cases w)
  from Cons.prems(1) have n1: "n < length xs1" and s1: "store_all ws (xs1[n := v]) = Inr ys1"
    unfolding w store_all_Cons by (simp_all split: if_splits)
  from Cons.prems(2) have n2: "n < length xs2" and s2: "store_all ws (xs2[n := v]) = Inr ys2"
    unfolding w store_all_Cons by (simp_all split: if_splits)
  have l: "length (xs1[n := v]) = length (xs2[n := v])" using Cons.prems(3) by simp
  have "j \<in> fst ` set ws \<or> xs1[n := v] ! j = xs2[n := v] ! j"
  proof (cases "j = n")
    case True
    then show ?thesis using n1 n2 by simp
  next
    case False
    then show ?thesis using Cons.prems(4) unfolding w by auto
  qed
  then show ?case by (rule Cons.IH[OF s1 s2 l])
qed

lemma store_all_other:
  "store_all ws xs = Inr ys \<Longrightarrow> j \<notin> fst ` set ws \<Longrightarrow> ys ! j = xs ! j"
proof (induction ws arbitrary: xs)
  case Nil
  then show ?case by simp
next
  case (Cons w ws)
  obtain n v where w: "w = (n, v)" by (cases w)
  from Cons.prems(1) have n: "n < length xs" and s: "store_all ws (xs[n := v]) = Inr ys"
    unfolding w store_all_Cons by (simp_all split: if_splits)
  from Cons.prems(2) have "j \<noteq> n" and "j \<notin> fst ` set ws" unfolding w by auto
  with Cons.IH[OF s] show ?case by simp
qed

section \<open>The cursor, the stores of one segment, and two runs side by side\<close>

lemma unat_uint_bound: "unat (i :: uint) < 4294967296"
proof -
  have "unat i < 2 ^ LENGTH(32)" by (rule unsigned_less)
  then show ?thesis by simp
qed

lemma unat_plus_small:
  fixes i k :: uint
  assumes "unat i + unat k < 4294967296"
  shows "unat (i + k) = unat i + unat k"
proof -
  from assms have "unat i + unat k < 2 ^ LENGTH(32)" by simp
  then show ?thesis by (simp only: unat_add_lem)
qed

lemma idx_cover:
  fixes i :: uint
  assumes "j < unat (i + 12)"
  shows "j < unat i \<or> j \<in> {unat (i + 0), unat (i + 1), unat (i + 2), unat (i + 3), unat (i + 4),
     unat (i + 5), unat (i + 6), unat (i + 7), unat i + 8 + 0, unat i + 8 + 1, unat i + 8 + 2, unat i + 8 + 3}"
proof (cases "unat i + 12 < 4294967296")
  case True
  then have e: "unat (i + k) = unat i + unat k" if "unat k \<le> 12" for k :: uint
    using that by (intro unat_plus_small) simp
  have "j < unat i + 12" using assms e[of 12] by simp
  moreover have "unat (i + 1) = unat i + 1" "unat (i + 2) = unat i + 2" "unat (i + 3) = unat i + 3"
    "unat (i + 4) = unat i + 4" "unat (i + 5) = unat i + 5" "unat (i + 6) = unat i + 6"
    "unat (i + 7) = unat i + 7"
    using e[of 1] e[of 2] e[of 3] e[of 4] e[of 5] e[of 6] e[of 7] by simp_all
  ultimately show ?thesis by simp arith
next
  case False
  have "unat (i + 12) = (unat i + 12) mod 4294967296"
    by (simp add: unat_word_ariths)
  also have "\<dots> = unat i + 12 - 4294967296"
    using False unat_uint_bound[of i] by (simp add: mod_if)
  finally have "unat (i + 12) = unat i + 12 - 4294967296" .
  with assms have "j < unat i" by arith
  then show ?thesis by blast
qed



lemma segment_stores_indices:
  "fst ` set (segment_stores i ac c) =
     {unat (i + 0), unat (i + 1), unat (i + 2), unat (i + 3), unat (i + 4),
      unat (i + 5), unat (i + 6), unat (i + 7),
      unat i + 8 + 0, unat i + 8 + 1, unat i + 8 + 2, unat i + 8 + 3}"
  by (simp add: segment_stores_def)

lemma collected_dropped:
  "fr_i fr > mx \<Longrightarrow>
   collected ar mx f1 f2 ac c fr = Inr (fr\<lparr>fr_critical := fr_critical fr @ [''out of range'']\<rparr>)"
  by (simp add: collected_def)

lemma collected_written:
  "\<not> fr_i fr > mx \<Longrightarrow> store_all (segment_stores (fr_i fr) ac c) (fr_vertices fr) = Inr vs \<Longrightarrow>
   collected ar mx f1 f2 ac c fr =
     Inr (fr\<lparr>fr_vertices := vs, fr_verticiesCount := fr_verticiesCount fr + 1,
             fr_i := fr_i fr + 12, fr_value := reset ar (fr_value fr),
             fr_coherence := float_zero ar\<rparr>)"
  by (simp add: collected_def)

lemma collected_failed:
  "\<not> fr_i fr > mx \<Longrightarrow> store_all (segment_stores (fr_i fr) ac c) (fr_vertices fr) = Inl e \<Longrightarrow>
   collected ar mx f1 f2 ac c fr = Inl e"
  by (simp add: collected_def)

lemma agreeI:
  assumes "fr_i fr1 = fr_i fr2" "fr_verticiesCount fr1 = fr_verticiesCount fr2"
    "fr_value fr1 = fr_value fr2" "fr_coherence fr1 = fr_coherence fr2"
    "fr_critical fr1 = fr_critical fr2" "length (fr_vertices fr1) = length (fr_vertices fr2)"
    "\<forall>j < unat (fr_i fr1). fr_vertices fr1 ! j = fr_vertices fr2 ! j"
  shows "agree fr1 fr2"
  unfolding agree_def using assms by blast

lemma collected_agree:
  assumes a: "agree fr1 fr2"
  shows "rel_sum (=) agree (collected ar mx f1 f2 ac c fr1) (collected ar mx f1 f2 ac c fr2)"
proof (cases "fr_i fr1 > mx")
  case True
  moreover from a have "fr_i fr2 = fr_i fr1" by (simp add: agree_def)
  ultimately have "collected ar mx f1 f2 ac c fr1 = Inr (fr1\<lparr>fr_critical := fr_critical fr1 @ [''out of range'']\<rparr>)"
    and "collected ar mx f1 f2 ac c fr2 = Inr (fr2\<lparr>fr_critical := fr_critical fr2 @ [''out of range'']\<rparr>)"
    by (simp_all add: collected_dropped)
  moreover have "agree (fr1\<lparr>fr_critical := fr_critical fr1 @ [''out of range'']\<rparr>)
     (fr2\<lparr>fr_critical := fr_critical fr2 @ [''out of range'']\<rparr>)"
    by (rule agreeI) (use a in \<open>simp_all add: agree_def\<close>)
  ultimately show ?thesis by simp
next
  case False
  from a have i: "fr_i fr2 = fr_i fr1" and l: "length (fr_vertices fr1) = length (fr_vertices fr2)"
    by (simp_all add: agree_def)
  let ?ws = "segment_stores (fr_i fr1) ac c"
  show ?thesis
  proof (cases "store_all ?ws (fr_vertices fr1)")
    case (Inl e)
    have "store_all ?ws (fr_vertices fr2) = Inl e" by (rule store_all_same_length[OF l Inl])
    with Inl False i show ?thesis by (simp add: collected_failed)
  next
    case (Inr ys1)
    then have "\<forall>n \<in> fst ` set ?ws. n < length (fr_vertices fr1)"
      using store_all_Inr_iff[of ?ws "fr_vertices fr1"] by blast
    then have "\<exists>ys2. store_all ?ws (fr_vertices fr2) = Inr ys2"
      using store_all_Inr_iff[of ?ws "fr_vertices fr2"] l by simp
    then obtain ys2 where ys2: "store_all ?ws (fr_vertices fr2) = Inr ys2" ..
    have len: "length ys1 = length ys2"
      using store_all_length[OF Inr] store_all_length[OF ys2] l by simp
    have pre: "ys1 ! j = ys2 ! j" if "j < unat (fr_i fr1 + 12)" for j
    proof -
      from idx_cover[OF that] have "j \<in> fst ` set ?ws \<or> j < unat (fr_i fr1)"
        unfolding segment_stores_indices by blast
      then have "j \<in> fst ` set ?ws \<or> fr_vertices fr1 ! j = fr_vertices fr2 ! j"
        using a by (auto simp: agree_def)
      then show ?thesis by (rule store_all_agree[OF Inr ys2 l])
    qed
    from ys2 i have ys2': "store_all (segment_stores (fr_i fr2) ac c) (fr_vertices fr2) = Inr ys2"
      by simp
    from False i have g2: "\<not> fr_i fr2 > mx" by simp
    have "agree
        (fr1\<lparr>fr_vertices := ys1, fr_verticiesCount := fr_verticiesCount fr1 + 1,
             fr_i := fr_i fr1 + 12, fr_value := reset ar (fr_value fr1),
             fr_coherence := float_zero ar\<rparr>)
        (fr2\<lparr>fr_vertices := ys2, fr_verticiesCount := fr_verticiesCount fr2 + 1,
             fr_i := fr_i fr2 + 12, fr_value := reset ar (fr_value fr2),
             fr_coherence := float_zero ar\<rparr>)"
    proof (rule agreeI)
      show "\<forall>j<unat (fr_i (fr1\<lparr>fr_vertices := ys1, fr_verticiesCount := fr_verticiesCount fr1 + 1,
             fr_i := fr_i fr1 + 12, fr_value := reset ar (fr_value fr1),
             fr_coherence := float_zero ar\<rparr>)).
          fr_vertices (fr1\<lparr>fr_vertices := ys1, fr_verticiesCount := fr_verticiesCount fr1 + 1,
             fr_i := fr_i fr1 + 12, fr_value := reset ar (fr_value fr1),
             fr_coherence := float_zero ar\<rparr>) ! j =
          fr_vertices (fr2\<lparr>fr_vertices := ys2, fr_verticiesCount := fr_verticiesCount fr2 + 1,
             fr_i := fr_i fr2 + 12, fr_value := reset ar (fr_value fr2),
             fr_coherence := float_zero ar\<rparr>) ! j"
        using pre by simp
    qed (use a i len in \<open>simp_all add: agree_def\<close>)
    then show ?thesis
      unfolding collected_written[OF False Inr] collected_written[OF g2 ys2'] by simp
  qed
qed

lemma accumulate_agree:
  assumes "agree fr1 fr2"
  shows "agree (accumulate ar src idx fr1) (accumulate ar src idx fr2)"
  by (rule agreeI) (use assms in \<open>simp_all add: agree_def accumulate_def Let_def\<close>)

lemma iterate_agree:
  "agree fr1 fr2 \<Longrightarrow> rel_sum (=) agree (iterate ar src mx d fr1) (iterate ar src mx d fr2)"
proof (induction d arbitrary: fr1 fr2)
  case Finish
  then show ?case by simp
next
  case (CallAccumulate idx k)
  then show ?case by (simp add: accumulate_agree)
next
  case (CallBeforeSpline count k)
  from CallBeforeSpline.prems have "fr_value fr2 = fr_value fr1" "fr_coherence fr2 = fr_coherence fr1"
    by (simp_all add: agree_def)
  then show ?case using CallBeforeSpline.IH[OF rangeI CallBeforeSpline.prems] by simp
next
  case (CallCollected f1 f2 ac c k)
  from collected_agree[OF CallCollected.prems]
  have r: "rel_sum (=) agree (collected ar mx f1 f2 ac c fr1) (collected ar mx f1 f2 ac c fr2)" .
  show ?case
  proof (cases "collected ar mx f1 f2 ac c fr1")
    case (Inl e)
    with r show ?thesis by (cases "collected ar mx f1 f2 ac c fr2") simp_all
  next
    case (Inr g1)
    with r obtain g2 where g2: "collected ar mx f1 f2 ac c fr2 = Inr g2" and "agree g1 g2"
      by (cases "collected ar mx f1 f2 ac c fr2") simp_all
    with Inr CallCollected.IH show ?thesis by simp
  qed
next
  case (ReadAccumulators k)
  from ReadAccumulators.prems have "fr_value fr2 = fr_value fr1" "fr_coherence fr2 = fr_coherence fr1"
    by (simp_all add: agree_def)
  then show ?case using ReadAccumulators.IH[OF rangeI rangeI ReadAccumulators.prems] by simp
next
  case (WriteAccumulators v coh k)
  from WriteAccumulators.prems
  have "agree (fr1\<lparr>fr_value := v, fr_coherence := coh\<rparr>) (fr2\<lparr>fr_value := v, fr_coherence := coh\<rparr>)"
    by (intro agreeI) (simp_all add: agree_def)
  then show ?case using WriteAccumulators.IH by simp
qed

lemma collected_length:
  assumes "collected ar mx f1 f2 ac c fr = Inr fr'"
  shows "length (fr_vertices fr') = length (fr_vertices fr)"
proof (cases "fr_i fr > mx")
  case True
  with assms show ?thesis by (auto simp: collected_dropped)
next
  case False
  show ?thesis
  proof (cases "store_all (segment_stores (fr_i fr) ac c) (fr_vertices fr)")
    case (Inl e)
    with assms False show ?thesis by (simp add: collected_failed)
  next
    case (Inr vs)
    with assms False store_all_length[OF Inr] show ?thesis
      by (auto simp: collected_written)
  qed
qed

lemma iterate_length:
  "iterate ar src mx d fr = Inr fr' \<Longrightarrow> length (fr_vertices fr') = length (fr_vertices fr)"
proof (induction d arbitrary: fr)
  case Finish
  then show ?case by simp
next
  case (CallAccumulate idx k)
  from CallAccumulate.IH[OF CallAccumulate.prems[simplified]]
  show ?case by (simp add: accumulate_def Let_def)
next
  case (CallBeforeSpline count k)
  from CallBeforeSpline.IH[OF rangeI CallBeforeSpline.prems[simplified]]
  show ?case .
next
  case (CallCollected f1 f2 ac c k)
  show ?case
  proof (cases "collected ar mx f1 f2 ac c fr")
    case (Inl e)
    with CallCollected.prems show ?thesis by simp
  next
    case (Inr g)
    with CallCollected.prems have "iterate ar src mx k g = Inr fr'" by simp
    from CallCollected.IH[OF this] collected_length[OF Inr] show ?thesis by simp
  qed
next
  case (ReadAccumulators k)
  from ReadAccumulators.IH[OF rangeI rangeI ReadAccumulators.prems[simplified]]
  show ?case .
next
  case (WriteAccumulators v coh k)
  from WriteAccumulators.IH[OF WriteAccumulators.prems[simplified]]
  show ?case by simp
qed

lemma unat_cursor_plus:
  fixes i k :: uint
  assumes "unat i + 12 \<le> 4294967296" and "unat k < 12"
  shows "unat (i + k) = unat i + unat k"
  by (rule unat_plus_small) (use assms in arith)

lemma segment_stores_in_range:
  assumes "unat i + 12 \<le> length xs" and "length xs \<le> 4294967296"
  shows "\<exists>ys. store_all (segment_stores i ac c) xs = Inr ys"
proof -
  have b: "unat i + 12 \<le> 4294967296" using assms by simp
  have "\<forall>n \<in> fst ` set (segment_stores i ac c). n < length xs"
    unfolding segment_stores_indices
    using assms(1) unat_cursor_plus[OF b, of 1] unat_cursor_plus[OF b, of 2]
      unat_cursor_plus[OF b, of 3] unat_cursor_plus[OF b, of 4] unat_cursor_plus[OF b, of 5]
      unat_cursor_plus[OF b, of 6] unat_cursor_plus[OF b, of 7]
    by simp
  then show ?thesis by (simp only: store_all_Inr_iff)
qed

lemma store_all_nth:
  "store_all ws xs = Inr ys \<Longrightarrow> distinct (map fst ws) \<Longrightarrow> (n, v) \<in> set ws \<Longrightarrow> ys ! n = v"
proof (induction ws arbitrary: xs)
  case Nil
  then show ?case by simp
next
  case (Cons w ws)
  obtain m u where w: "w = (m, u)" by (cases w)
  from Cons.prems(1) have m: "m < length xs" and s: "store_all ws (xs[m := u]) = Inr ys"
    unfolding w store_all_Cons by (simp_all split: if_splits)
  from Cons.prems(2) have d: "distinct (map fst ws)" and nm: "m \<notin> fst ` set ws"
    unfolding w by simp_all
  show ?case
  proof (cases "(n, v) \<in> set ws")
    case True
    from Cons.IH[OF s d True] show ?thesis .
  next
    case False
    with Cons.prems(3) have "n = m" "v = u" unfolding w by simp_all
    with store_all_other[OF s nm] m show ?thesis by simp
  qed
qed

section \<open>The parts of a render pass\<close>

lemma renderSeries_active:
  assumes "m_source (xy r) = Some src" and "active src" and "size_s src \<noteq> 0"
  shows "renderSeries ar it r =
     (case iterate ar src (maxBufferSize_of r) (it src (m_pointsPerOctave r))
             (initial_frame ar (m_vertices (resizeVertices ar (maxBufferSize_of r) (xy r)))) of
        Inl e \<Rightarrow> Inl e
      | Inr fr \<Rightarrow> upload r (maxBufferSize_of r) (resizeVertices ar (maxBufferSize_of r) (xy r)) fr)"
  using assms by (simp add: renderSeries_def Let_def)

lemma renderSeries_idle:
  assumes "m_source (xy r) = Some src" and "\<not> active src \<or> size_s src = 0"
  shows "renderSeries ar it r = Inr r"
  using assms by (auto simp: renderSeries_def)

lemma renderSeries_no_source:
  assumes "m_source (xy r) = None"
  shows "renderSeries ar it r = Inl NullPointer"
  using assms by (simp add: renderSeries_def)

lemma resizeVertices_length: "length (m_vertices (resizeVertices ar mx b)) = unat mx"
  by (auto simp: resizeVertices_def resize_def)

lemma resizeVertices_same:
  "length (m_vertices b) = unat mx \<Longrightarrow> resizeVertices ar mx b = b"
  by (simp add: resizeVertices_def)

lemma resizeVertices_source: "m_source (resizeVertices ar mx b) = m_source b"
  by (simp add: resizeVertices_def)

lemma upload_Inr:
  assumes "upload r mx b fr = Inr r'"
  shows "12 * unat (fr_verticiesCount fr) \<le> length (fr_vertices fr)"
    and "r' = r\<lparr>xy := b
        \<lparr>m_vertices := fr_vertices fr,
         critical := critical b @ fr_critical fr,
         gl_coherenceThreshold := m_coherenceThreshold r,
         gl_coherenceAlpha := m_coherence r,
         gl_allocated := (if m_refreshBuffers b then unat mx else gl_allocated b),
         gl_uploaded := take (12 * unat (fr_verticiesCount fr)) (fr_vertices fr),
         gl_drawn := fr_verticiesCount fr,
         m_refreshBuffers := False\<rparr>\<rparr>"
  using assms by (simp_all add: upload_def split: if_splits)

lemma upload_ok:
  assumes "12 * unat (fr_verticiesCount fr) \<le> length (fr_vertices fr)"
  shows "upload r mx b fr = Inr (r\<lparr>xy := b
        \<lparr>m_vertices := fr_vertices fr,
         critical := critical b @ fr_critical fr,
         gl_coherenceThreshold := m_coherenceThreshold r,
         gl_coherenceAlpha := m_coherence r,
         gl_allocated := (if m_refreshBuffers b then unat mx else gl_allocated b),
         gl_uploaded := take (12 * unat (fr_verticiesCount fr)) (fr_vertices fr),
         gl_drawn := fr_verticiesCount fr,
         m_refreshBuffers := False\<rparr>\<rparr>)"
  using assms by (simp add: upload_def)

section \<open>Runs of the iteration\<close>

lemma collected_cursor_counts:
  assumes "cursor_counts fr" and "collected ar mx f1 f2 ac c fr = Inr fr'"
  shows "cursor_counts fr'"
proof (cases "fr_i fr > mx")
  case True
  with assms show ?thesis by (auto simp: collected_dropped cursor_counts_def)
next
  case False
  show ?thesis
  proof (cases "store_all (segment_stores (fr_i fr) ac c) (fr_vertices fr)")
    case (Inl e)
    with assms False show ?thesis by (simp add: collected_failed)
  next
    case (Inr vs)
    from assms(2) have "fr' = fr\<lparr>fr_vertices := vs, fr_verticiesCount := fr_verticiesCount fr + 1,
             fr_i := fr_i fr + 12, fr_value := reset ar (fr_value fr),
             fr_coherence := float_zero ar\<rparr>"
      unfolding collected_written[OF False Inr] by simp
    with assms(1) show ?thesis by (simp add: cursor_counts_def distrib_left)
  qed
qed

lemma iterate_cursor_counts:
  "cursor_counts fr \<Longrightarrow> iterate ar src mx d fr = Inr fr' \<Longrightarrow> cursor_counts fr'"
proof (induction d arbitrary: fr)
  case Finish
  then show ?case by simp
next
  case (CallAccumulate idx k)
  from CallAccumulate.prems(1) have "cursor_counts (accumulate ar src idx fr)"
    by (simp add: cursor_counts_def accumulate_def Let_def)
  from CallAccumulate.IH[OF this] CallAccumulate.prems(2) show ?case by simp
next
  case (CallBeforeSpline count k)
  from CallBeforeSpline.IH[OF rangeI CallBeforeSpline.prems(1)] CallBeforeSpline.prems(2)
  show ?case by simp
next
  case (CallCollected f1 f2 ac c k)
  show ?case
  proof (cases "collected ar mx f1 f2 ac c fr")
    case (Inl e)
    with CallCollected.prems show ?thesis by simp
  next
    case (Inr g)
    with CallCollected.prems have "iterate ar src mx k g = Inr fr'" by simp
    from CallCollected.IH[OF collected_cursor_counts[OF CallCollected.prems(1) Inr] this]
    show ?thesis .
  qed
next
  case (ReadAccumulators k)
  from ReadAccumulators.IH[OF rangeI rangeI ReadAccumulators.prems(1)] ReadAccumulators.prems(2)
  show ?case by simp
next
  case (WriteAccumulators v coh k)
  from WriteAccumulators.prems(1)
  have "cursor_counts (fr\<lparr>fr_value := v, fr_coherence := coh\<rparr>)"
    by (simp add: cursor_counts_def)
  from WriteAccumulators.IH[OF this] WriteAccumulators.prems(2) show ?case by simp
qed

lemma collected_inside:
  assumes size: "length (fr_vertices fr) = unat mx"
    and inside: "unat (fr_i fr) + 12 \<le> length (fr_vertices fr)"
  shows "\<exists>ys. collected ar mx f1 f2 ac c fr =
       Inr (fr\<lparr>fr_vertices := ys, fr_verticiesCount := fr_verticiesCount fr + 1,
               fr_i := fr_i fr + 12, fr_value := reset ar (fr_value fr),
               fr_coherence := float_zero ar\<rparr>)
     \<and> length ys = length (fr_vertices fr)"
proof -
  have lb: "length (fr_vertices fr) \<le> 4294967296"
    using size unat_uint_bound[of mx] by simp
  from inside size have "unat (fr_i fr) \<le> unat mx" by simp
  then have guard: "\<not> fr_i fr > mx" by (simp add: word_less_nat_alt)
  from segment_stores_in_range[OF inside lb]
  obtain ys where ys: "store_all (segment_stores (fr_i fr) ac c) (fr_vertices fr) = Inr ys"
    by blast
  from collected_written[OF guard ys] store_all_length[OF ys] show ?thesis by blast
qed

lemma collected_at_capacity:
  assumes "fr_i fr = mx" and "length (fr_vertices fr) = unat mx"
  shows "collected ar mx f1 f2 ac c fr = Inl OutOfRange"
  using assms by (simp add: collected_def segment_stores_def store_def)

lemma segments_add:
  "iterate ar src mx (segments (n + m)) fr =
     (case iterate ar src mx (segments n) fr of
        Inl e \<Rightarrow> Inl e
      | Inr fr' \<Rightarrow> iterate ar src mx (segments m) fr')"
  by (induction n arbitrary: fr) (simp_all split: sum.splits)

lemma segments_run:
  assumes "length (fr_vertices fr) = unat mx"
    and "unat (fr_i fr) + 12 * n \<le> length (fr_vertices fr)"
  shows "\<exists>fr'. iterate ar src mx (segments n) fr = Inr fr'
     \<and> fr_i fr' = fr_i fr + 12 * of_nat n
     \<and> fr_verticiesCount fr' = fr_verticiesCount fr + of_nat n
     \<and> length (fr_vertices fr') = length (fr_vertices fr)"
  using assms
proof (induction n arbitrary: fr)
  case 0
  then show ?case by simp
next
  case (Suc n)
  let ?fa = "accumulate ar src 0 fr"
  have fa: "fr_i ?fa = fr_i fr" "fr_vertices ?fa = fr_vertices fr"
    "fr_verticiesCount ?fa = fr_verticiesCount fr"
    by (simp_all add: accumulate_def Let_def)
  have size: "length (fr_vertices ?fa) = unat mx" using Suc.prems(1) fa by simp
  have inside: "unat (fr_i ?fa) + 12 \<le> length (fr_vertices ?fa)" using Suc.prems(2) fa by simp
  from collected_inside[OF size inside, of ar 0 0 example_ac example_c]
  obtain ys where c: "collected ar mx 0 0 example_ac example_c ?fa =
       Inr (?fa\<lparr>fr_vertices := ys, fr_verticiesCount := fr_verticiesCount ?fa + 1,
               fr_i := fr_i ?fa + 12, fr_value := reset ar (fr_value ?fa),
               fr_coherence := float_zero ar\<rparr>)"
    and ly: "length ys = length (fr_vertices ?fa)"
    by blast
  let ?g = "?fa\<lparr>fr_vertices := ys, fr_verticiesCount := fr_verticiesCount ?fa + 1,
               fr_i := fr_i ?fa + 12, fr_value := reset ar (fr_value ?fa),
               fr_coherence := float_zero ar\<rparr>"
  have lb: "unat (fr_i fr) + 12 \<le> 4294967296"
    using inside size fa unat_uint_bound[of mx] by simp
  have step: "unat (fr_i fr + 12) = unat (fr_i fr) + 12"
    using unat_plus_small[of "fr_i fr" 12] lb Suc.prems unat_uint_bound[of mx] by simp
  have g1: "length (fr_vertices ?g) = unat mx" using ly size by simp
  have g2: "unat (fr_i ?g) + 12 * n \<le> length (fr_vertices ?g)"
    using Suc.prems(2) ly fa step by simp
  from Suc.IH[OF g1 g2]
  obtain fr' where r: "iterate ar src mx (segments n) ?g = Inr fr'"
    and i: "fr_i fr' = fr_i ?g + 12 * of_nat n"
    and k: "fr_verticiesCount fr' = fr_verticiesCount ?g + of_nat n"
    and l: "length (fr_vertices fr') = length (fr_vertices ?g)"
    by blast
  have "iterate ar src mx (segments (Suc n)) fr = Inr fr'" using c r by simp
  moreover have "fr_i fr' = fr_i fr + 12 * of_nat (Suc n)" using i fa by (simp add: distrib_left)
  moreover have "fr_verticiesCount fr' = fr_verticiesCount fr + of_nat (Suc n)" using k fa by simp
  moreover have "length (fr_vertices fr') = length (fr_vertices fr)" using l ly fa by simp
  ultimately show ?case by blast
qed


lemma example_capacity:
  "maxBufferSize_of (example_renderer\<lparr>m_pointsPerOctave := 1\<rparr>) = 144"
  by (simp add: maxBufferSize_of_def)

lemma example_source_facts:
  "m_source (xy (example_renderer\<lparr>m_pointsPerOctave := 1\<rparr>)) = Some example_source"
  "active example_source" "size_s example_source \<noteq> 0"
  by (simp_all add: example_renderer_def example_source_def)

lemma example_iteration:
  assumes "n \<le> 12"
  shows "\<exists>fr. iterate exact_arith example_source 144 (segments n)
           (initial_frame exact_arith
              (m_vertices (resizeVertices exact_arith 144
                 (xy (example_renderer\<lparr>m_pointsPerOctave := 1\<rparr>))))) = Inr fr
     \<and> fr_i fr = 12 * of_nat n \<and> fr_verticiesCount fr = of_nat n
     \<and> length (fr_vertices fr) = 144"
proof -
  let ?fr0 = "initial_frame exact_arith
     (m_vertices (resizeVertices exact_arith 144 (xy (example_renderer\<lparr>m_pointsPerOctave := 1\<rparr>))))"
  have l: "length (fr_vertices ?fr0) = unat (144 :: uint)"
    by (simp add: initial_frame_def resizeVertices_length)
  have i: "unat (fr_i ?fr0) + 12 * n \<le> length (fr_vertices ?fr0)"
    using assms by (simp add: initial_frame_def resizeVertices_length)
  from segments_run[OF l i, of exact_arith example_source]
  show ?thesis by (simp add: initial_frame_def resizeVertices_length)
qed

lemma example_pass_returns:
  assumes "n \<le> 12"
  shows "\<exists>r'. renderSeries exact_arith (\<lambda>src ppo. segments n)
            (example_renderer\<lparr>m_pointsPerOctave := 1\<rparr>) = Inr r'"
proof -
  from example_iteration[OF assms] obtain fr where
    it: "iterate exact_arith example_source 144 (segments n)
           (initial_frame exact_arith
              (m_vertices (resizeVertices exact_arith 144
                 (xy (example_renderer\<lparr>m_pointsPerOctave := 1\<rparr>))))) = Inr fr"
    and k: "fr_verticiesCount fr = of_nat n" and l: "length (fr_vertices fr) = 144"
    by blast
  have "unat (of_nat n :: uint) = n" using assms by (simp add: unat_of_nat)
  then have "12 * unat (fr_verticiesCount fr) \<le> length (fr_vertices fr)"
    using k l assms by simp
  from upload_ok[OF this] show ?thesis
    unfolding renderSeries_active[OF example_source_facts] example_capacity it by simp
qed

section \<open>Accumulation is addition\<close>

lemma accumulate_fold_phase:
  "m_phase (fr_value (fold (accumulate ar src) bins fr)) =
     foldl (complex_add ar) (m_phase (fr_value fr)) (map (phase src) bins)"
  by (induction bins arbitrary: fr)
    (simp_all add: accumulate_def add_phase_def add_magnitude_def Let_def)

lemma accumulate_fold_magnitude:
  "m_magnitude (fr_value (fold (accumulate ar src) bins fr)) =
     foldl (float_add ar) (m_magnitude (fr_value fr)) (map (magnitudeRaw src) bins)"
  by (induction bins arbitrary: fr)
    (simp_all add: accumulate_def add_phase_def add_magnitude_def Let_def)

lemma accumulate_fold_coherence:
  "fr_coherence (fold (accumulate ar src) bins fr) =
     foldl (float_add ar) (fr_coherence fr) (map (coherence src) bins)"
  by (induction bins arbitrary: fr)
    (simp_all add: accumulate_def add_phase_def add_magnitude_def Let_def)

lemma accumulate_fold_cursor:
  "fr_i (fold (accumulate ar src) bins fr) = fr_i fr"
  by (induction bins arbitrary: fr)
    (simp_all add: accumulate_def add_phase_def add_magnitude_def Let_def)

section \<open>The control point of a closed band\<close>

text \<open>
  Claim C3. A band starts from a reset accumulator and folds its bins with \<open>accumulate\<close>.
  The sums it holds when it closes are built by addition alone, from zero, over the phases,
  the raw magnitudes and the coherences of its bins, in their order. \<open>beforeSpline\<close> then
  returns \<open>unitPhase (phaseSum / count) * (magnitudeSum / count)\<close>, with
  \<open>unitPhase z = z / |z|\<close>: the divisions by the count are those of \<open>beforeSpline\<close>, made
  once when the band closes. This holds for every band, every count and every meaning of the
  arithmetic operators.
\<close>

theorem beforeSpline_control_point:
  "beforeSpline ar
     (fr_value (fold (accumulate ar src) bins
        (fr\<lparr>fr_value := reset ar (fr_value fr), fr_coherence := float_zero ar\<rparr>)))
     unused count =
   complex_mul ar
     (unitPhase ar
        (complex_div_count ar
           (foldl (complex_add ar) (complex_zero ar) (map (phase src) bins)) count))
     (float_div_count ar
        (foldl (float_add ar) (float_zero ar) (map (magnitudeRaw src) bins)) count)
   \<and> fr_coherence (fold (accumulate ar src) bins
        (fr\<lparr>fr_value := reset ar (fr_value fr), fr_coherence := float_zero ar\<rparr>)) =
     foldl (float_add ar) (float_zero ar) (map (coherence src) bins)"
  by (simp add: beforeSpline_def unitPhase_def Let_def accumulate_fold_phase
      accumulate_fold_magnitude accumulate_fold_coherence reset_def)

section \<open>Synchronize\<close>

text \<open>
  Claim C5. When the item is there and its parent is absent or is not a \<open>NyquistPlot\<close>,
  \<open>synchronize\<close> returns normally and the points per octave, the coherence flag and the
  coherence threshold keep the values they had before the call.
\<close>

theorem synchronize_keeps_configuration:
  assumes "m_item (xy_synchronize item (xy r)) = Some it"
    and "\<forall>plot. parent it \<noteq> Some (IsNyquistPlot plot)"
  shows "\<exists>r'. synchronize xy_synchronize item r = Inr r'
           \<and> m_pointsPerOctave r' = m_pointsPerOctave r
           \<and> m_coherence r' = m_coherence r
           \<and> m_coherenceThreshold r' = m_coherenceThreshold r"
proof (cases "parent it")
  case None
  with assms(1) show ?thesis by (simp add: synchronize_def Let_def)
next
  case (Some obj)
  with assms(2) have "obj = OtherObject" by (cases obj) auto
  with Some assms(1) show ?thesis by (simp add: synchronize_def Let_def)
qed

theorem synchronize_keeps_configuration_witness:
  "(\<exists>r'. synchronize store_item (Some \<lparr>parent = None\<rparr>)
            (example_renderer\<lparr>m_pointsPerOctave := 24, m_coherence := True,
               m_coherenceThreshold := 1 / 2\<rparr>) = Inr r'
         \<and> m_pointsPerOctave r' = 24 \<and> m_coherence r' = True \<and> m_coherenceThreshold r' = 1 / 2)
   \<and> (\<exists>r'. synchronize store_item (Some \<lparr>parent = Some OtherObject\<rparr>)
            (example_renderer\<lparr>m_pointsPerOctave := 24, m_coherence := True,
               m_coherenceThreshold := 1 / 2\<rparr>) = Inr r'
         \<and> m_pointsPerOctave r' = 24 \<and> m_coherence r' = True \<and> m_coherenceThreshold r' = 1 / 2)"
  using synchronize_keeps_configuration
          [of store_item "Some \<lparr>parent = None\<rparr>"
              "example_renderer\<lparr>m_pointsPerOctave := 24, m_coherence := True,
                 m_coherenceThreshold := 1 / 2\<rparr>" "\<lparr>parent = None\<rparr>"]
        synchronize_keeps_configuration
          [of store_item "Some \<lparr>parent = Some OtherObject\<rparr>"
              "example_renderer\<lparr>m_pointsPerOctave := 24, m_coherence := True,
                 m_coherenceThreshold := 1 / 2\<rparr>" "\<lparr>parent = Some OtherObject\<rparr>"]
  by (simp add: store_item_def)

section \<open>The record of one segment\<close>

text \<open>
  Claim C6. A segment is written when the guard of \<open>collected\<close> lets it pass and the twelve
  floats at the write cursor lie inside the vertex array, which has the size
  \<open>maxBufferSize\<close> during a render pass. Then \<open>collected\<close> returns normally; the floats
  at the offsets 0 to 3 from the cursor are the real parts of the four control points in
  order, those at 4 to 7 their imaginary parts in order, those at 8 to 11 the four scalar
  controls; no other element of the array changes; the cursor advances by 12 and the vertex
  counter by 1.
\<close>

theorem collected_writes_segment:
  assumes guard: "\<not> fr_i fr > maxBufferSize"
    and size: "length (fr_vertices fr) = unat maxBufferSize"
    and inside: "unat (fr_i fr) + 12 \<le> length (fr_vertices fr)"
  shows "\<exists>fr'. collected ar maxBufferSize f1 f2 ac c fr = Inr fr'
     \<and> fr_vertices fr' ! (unat (fr_i fr) + 0) = real_c (at4 ac 0)
     \<and> fr_vertices fr' ! (unat (fr_i fr) + 1) = real_c (at4 ac 1)
     \<and> fr_vertices fr' ! (unat (fr_i fr) + 2) = real_c (at4 ac 2)
     \<and> fr_vertices fr' ! (unat (fr_i fr) + 3) = real_c (at4 ac 3)
     \<and> fr_vertices fr' ! (unat (fr_i fr) + 4) = imag_c (at4 ac 0)
     \<and> fr_vertices fr' ! (unat (fr_i fr) + 5) = imag_c (at4 ac 1)
     \<and> fr_vertices fr' ! (unat (fr_i fr) + 6) = imag_c (at4 ac 2)
     \<and> fr_vertices fr' ! (unat (fr_i fr) + 7) = imag_c (at4 ac 3)
     \<and> fr_vertices fr' ! (unat (fr_i fr) + 8) = at4 c 0
     \<and> fr_vertices fr' ! (unat (fr_i fr) + 9) = at4 c 1
     \<and> fr_vertices fr' ! (unat (fr_i fr) + 10) = at4 c 2
     \<and> fr_vertices fr' ! (unat (fr_i fr) + 11) = at4 c 3
     \<and> length (fr_vertices fr') = length (fr_vertices fr)
     \<and> (\<forall>j. j < unat (fr_i fr) \<or> unat (fr_i fr) + 12 \<le> j
            \<longrightarrow> fr_vertices fr' ! j = fr_vertices fr ! j)
     \<and> fr_i fr' = fr_i fr + 12
     \<and> fr_verticiesCount fr' = fr_verticiesCount fr + 1"
proof -
  let ?i = "fr_i fr"
  let ?ws = "segment_stores ?i ac c"
  have lb: "length (fr_vertices fr) \<le> 4294967296"
    using size unat_uint_bound[of maxBufferSize] by simp
  from segment_stores_in_range[OF inside lb]
  obtain ys where ys: "store_all ?ws (fr_vertices fr) = Inr ys" by blast
  have b: "unat ?i + 12 \<le> 4294967296" using inside lb by simp
  have ws: "?ws =
     [(unat ?i + 0, real_c (at4 ac 0)), (unat ?i + 1, real_c (at4 ac 1)),
      (unat ?i + 2, real_c (at4 ac 2)), (unat ?i + 3, real_c (at4 ac 3)),
      (unat ?i + 4, imag_c (at4 ac 0)), (unat ?i + 5, imag_c (at4 ac 1)),
      (unat ?i + 6, imag_c (at4 ac 2)), (unat ?i + 7, imag_c (at4 ac 3)),
      (unat ?i + 8, at4 c 0), (unat ?i + 9, at4 c 1),
      (unat ?i + 10, at4 c 2), (unat ?i + 11, at4 c 3)]"
    unfolding segment_stores_def
    using unat_cursor_plus[OF b, of 1] unat_cursor_plus[OF b, of 2]
      unat_cursor_plus[OF b, of 3] unat_cursor_plus[OF b, of 4] unat_cursor_plus[OF b, of 5]
      unat_cursor_plus[OF b, of 6] unat_cursor_plus[OF b, of 7]
    by simp
  have d: "distinct (map fst ?ws)" unfolding ws by simp
  have nth: "ys ! n = v" if "(n, v) \<in> set ?ws" for n v
    by (rule store_all_nth[OF ys d that])
  have other: "ys ! j = fr_vertices fr ! j" if "j < unat ?i \<or> unat ?i + 12 \<le> j" for j
  proof (rule store_all_other[OF ys])
    show "j \<notin> fst ` set ?ws" unfolding ws using that by auto
  qed
  have res: "collected ar maxBufferSize f1 f2 ac c fr =
     Inr (fr\<lparr>fr_vertices := ys, fr_verticiesCount := fr_verticiesCount fr + 1,
             fr_i := ?i + 12, fr_value := reset ar (fr_value fr),
             fr_coherence := float_zero ar\<rparr>)"
    by (rule collected_written[OF guard ys])
  have n0: "ys ! (unat ?i + 0) = real_c (at4 ac 0)" by (rule nth) (simp add: ws)
  have n1: "ys ! (unat ?i + 1) = real_c (at4 ac 1)" by (rule nth) (simp add: ws)
  have n2: "ys ! (unat ?i + 2) = real_c (at4 ac 2)" by (rule nth) (simp add: ws)
  have n3: "ys ! (unat ?i + 3) = real_c (at4 ac 3)" by (rule nth) (simp add: ws)
  have n4: "ys ! (unat ?i + 4) = imag_c (at4 ac 0)" by (rule nth) (simp add: ws)
  have n5: "ys ! (unat ?i + 5) = imag_c (at4 ac 1)" by (rule nth) (simp add: ws)
  have n6: "ys ! (unat ?i + 6) = imag_c (at4 ac 2)" by (rule nth) (simp add: ws)
  have n7: "ys ! (unat ?i + 7) = imag_c (at4 ac 3)" by (rule nth) (simp add: ws)
  have n8: "ys ! (unat ?i + 8) = at4 c 0" by (rule nth) (simp add: ws)
  have n9: "ys ! (unat ?i + 9) = at4 c 1" by (rule nth) (simp add: ws)
  have n10: "ys ! (unat ?i + 10) = at4 c 2" by (rule nth) (simp add: ws)
  have n11: "ys ! (unat ?i + 11) = at4 c 3" by (rule nth) (simp add: ws)
  show ?thesis
    unfolding res
    using n0 n1 n2 n3 n4 n5 n6 n7 n8 n9 n10 n11 other store_all_length[OF ys]
    by simp
qed

theorem collected_writes_segment_witness:
  "\<not> fr_i example_frame > 24 \<and> length (fr_vertices example_frame) = unat (24 :: uint)
   \<and> unat (fr_i example_frame) + 12 \<le> length (fr_vertices example_frame)
   \<and> (\<exists>fr'. collected exact_arith 24 0 0 example_ac example_c example_frame = Inr fr'
        \<and> fr_vertices fr' ! 12 = 1 \<and> fr_vertices fr' ! 13 = 2 \<and> fr_vertices fr' ! 14 = 3
        \<and> fr_vertices fr' ! 15 = 4 \<and> fr_vertices fr' ! 16 = 5 \<and> fr_vertices fr' ! 17 = 6
        \<and> fr_vertices fr' ! 18 = 7 \<and> fr_vertices fr' ! 19 = 8 \<and> fr_vertices fr' ! 20 = 9
        \<and> fr_vertices fr' ! 21 = 10 \<and> fr_vertices fr' ! 22 = 11 \<and> fr_vertices fr' ! 23 = 12
        \<and> fr_i fr' = 24 \<and> fr_verticiesCount fr' = 2)"
proof -
  have g: "\<not> fr_i example_frame > 24" by (simp add: example_frame_def)
  have s: "length (fr_vertices example_frame) = unat (24 :: uint)" by (simp add: example_frame_def)
  have r: "unat (fr_i example_frame) + 12 \<le> length (fr_vertices example_frame)"
    by (simp add: example_frame_def)
  from collected_writes_segment[OF g s r, of exact_arith 0 0 example_ac example_c]
  obtain fr' where "collected exact_arith 24 0 0 example_ac example_c example_frame = Inr fr'"
    and "fr_vertices fr' ! (unat (fr_i example_frame) + 0) = real_c (at4 example_ac 0)"
    and "fr_vertices fr' ! (unat (fr_i example_frame) + 1) = real_c (at4 example_ac 1)"
    and "fr_vertices fr' ! (unat (fr_i example_frame) + 2) = real_c (at4 example_ac 2)"
    and "fr_vertices fr' ! (unat (fr_i example_frame) + 3) = real_c (at4 example_ac 3)"
    and "fr_vertices fr' ! (unat (fr_i example_frame) + 4) = imag_c (at4 example_ac 0)"
    and "fr_vertices fr' ! (unat (fr_i example_frame) + 5) = imag_c (at4 example_ac 1)"
    and "fr_vertices fr' ! (unat (fr_i example_frame) + 6) = imag_c (at4 example_ac 2)"
    and "fr_vertices fr' ! (unat (fr_i example_frame) + 7) = imag_c (at4 example_ac 3)"
    and "fr_vertices fr' ! (unat (fr_i example_frame) + 8) = at4 example_c 0"
    and "fr_vertices fr' ! (unat (fr_i example_frame) + 9) = at4 example_c 1"
    and "fr_vertices fr' ! (unat (fr_i example_frame) + 10) = at4 example_c 2"
    and "fr_vertices fr' ! (unat (fr_i example_frame) + 11) = at4 example_c 3"
    and "fr_i fr' = fr_i example_frame + 12"
    and "fr_verticiesCount fr' = fr_verticiesCount example_frame + 1"
    by blast
  then have "\<exists>fr'. collected exact_arith 24 0 0 example_ac example_c example_frame = Inr fr'
        \<and> fr_vertices fr' ! 12 = 1 \<and> fr_vertices fr' ! 13 = 2 \<and> fr_vertices fr' ! 14 = 3
        \<and> fr_vertices fr' ! 15 = 4 \<and> fr_vertices fr' ! 16 = 5 \<and> fr_vertices fr' ! 17 = 6
        \<and> fr_vertices fr' ! 18 = 7 \<and> fr_vertices fr' ! 19 = 8 \<and> fr_vertices fr' ! 20 = 9
        \<and> fr_vertices fr' ! 21 = 10 \<and> fr_vertices fr' ! 22 = 11 \<and> fr_vertices fr' ! 23 = 12
        \<and> fr_i fr' = 24 \<and> fr_verticiesCount fr' = 2"
    by (simp add: example_frame_def example_ac_def example_c_def)
  with g s r show ?thesis by blast
qed

section \<open>The accumulators after a segment\<close>

text \<open>
  Claim C7. After a segment write (the guard let it pass and \<open>collected\<close> returned), the
  phase sum, the magnitude sum and the coherence sum are zero. Whatever bins are folded next,
  the sums they produce are built from zero over those bins alone: nothing accumulated before
  the write is part of them.
\<close>

theorem collected_resets_accumulators:
  assumes guard: "\<not> fr_i fr > maxBufferSize"
    and written: "collected ar maxBufferSize f1 f2 ac c fr = Inr fr'"
  shows "m_phase (fr_value fr') = complex_zero ar
     \<and> m_magnitude (fr_value fr') = float_zero ar
     \<and> fr_coherence fr' = float_zero ar
     \<and> (\<forall>bins.
          m_phase (fr_value (fold (accumulate ar src) bins fr')) =
            foldl (complex_add ar) (complex_zero ar) (map (phase src) bins)
        \<and> m_magnitude (fr_value (fold (accumulate ar src) bins fr')) =
            foldl (float_add ar) (float_zero ar) (map (magnitudeRaw src) bins)
        \<and> fr_coherence (fold (accumulate ar src) bins fr') =
            foldl (float_add ar) (float_zero ar) (map (coherence src) bins))"
proof (cases "store_all (segment_stores (fr_i fr) ac c) (fr_vertices fr)")
  case (Inl e)
  with guard written show ?thesis by (simp add: collected_failed)
next
  case (Inr vs)
  from written have fr': "fr' = fr\<lparr>fr_vertices := vs, fr_verticiesCount := fr_verticiesCount fr + 1,
             fr_i := fr_i fr + 12, fr_value := reset ar (fr_value fr),
             fr_coherence := float_zero ar\<rparr>"
    unfolding collected_written[OF guard Inr] by simp
  have z: "m_phase (fr_value fr') = complex_zero ar" "m_magnitude (fr_value fr') = float_zero ar"
    "fr_coherence fr' = float_zero ar"
    unfolding fr' by (simp_all add: reset_def)
  show ?thesis
    unfolding accumulate_fold_phase accumulate_fold_magnitude accumulate_fold_coherence
    using z by simp
qed

theorem collected_resets_accumulators_witness:
  "\<not> fr_i example_frame > 24
   \<and> (\<exists>fr'. collected exact_arith 24 0 0 example_ac example_c example_frame = Inr fr'
        \<and> m_phase (fr_value example_frame) = \<lparr>real_c = 3, imag_c = 4\<rparr>
        \<and> m_phase (fr_value fr') = \<lparr>real_c = 0, imag_c = 0\<rparr>
        \<and> m_magnitude (fr_value fr') = 0 \<and> fr_coherence fr' = 0
        \<and> m_magnitude (fr_value (fold (accumulate exact_arith example_source) [0, 1, 2] fr')) = 3)"
proof -
  have g: "\<not> fr_i example_frame > 24" by (simp add: example_frame_def)
  obtain fr' where w: "collected exact_arith 24 0 0 example_ac example_c example_frame = Inr fr'"
    by (simp add: collected_def segment_stores_def store_def example_frame_def)
  from collected_resets_accumulators[OF g w, of example_source]
  have "m_phase (fr_value fr') = complex_zero exact_arith"
    and "m_magnitude (fr_value fr') = float_zero exact_arith"
    and "fr_coherence fr' = float_zero exact_arith"
    and "m_magnitude (fr_value (fold (accumulate exact_arith example_source) [0, 1, 2] fr')) =
            foldl (float_add exact_arith) (float_zero exact_arith)
              (map (magnitudeRaw example_source) [0, 1, 2])"
    by blast+
  then have "m_phase (fr_value fr') = \<lparr>real_c = 0, imag_c = 0\<rparr>
        \<and> m_magnitude (fr_value fr') = 0 \<and> fr_coherence fr' = 0
        \<and> m_magnitude (fr_value (fold (accumulate exact_arith example_source) [0, 1, 2] fr')) = 3"
    by (simp add: exact_arith_def example_source_def)
  moreover have "m_phase (fr_value example_frame) = \<lparr>real_c = 3, imag_c = 4\<rparr>"
    by (simp add: example_frame_def)
  ultimately show ?thesis using g w by blast
qed

text \<open>
  Claim C9. When the guard fires, \<open>collected\<close> reports \<open>out of range\<close> and returns with
  the vertex array, the cursor, the vertex counter and the three sums as they were: the
  sums are not reset. Whatever bins are folded next are added on top of the leftover sums,
  and the cursor is still beyond \<open>maxBufferSize\<close>, so the guard fires again at the next
  segment.
\<close>

theorem dropped_write_keeps_sums:
  assumes guard: "fr_i fr > maxBufferSize"
  shows "\<exists>fr'. collected ar maxBufferSize f1 f2 ac c fr = Inr fr'
     \<and> fr_critical fr' = fr_critical fr @ [''out of range'']
     \<and> fr_vertices fr' = fr_vertices fr
     \<and> fr_i fr' = fr_i fr \<and> fr_verticiesCount fr' = fr_verticiesCount fr
     \<and> fr_value fr' = fr_value fr \<and> fr_coherence fr' = fr_coherence fr
     \<and> (\<forall>bins.
          m_phase (fr_value (fold (accumulate ar src) bins fr')) =
            foldl (complex_add ar) (m_phase (fr_value fr)) (map (phase src) bins)
        \<and> m_magnitude (fr_value (fold (accumulate ar src) bins fr')) =
            foldl (float_add ar) (m_magnitude (fr_value fr)) (map (magnitudeRaw src) bins)
        \<and> fr_coherence (fold (accumulate ar src) bins fr') =
            foldl (float_add ar) (fr_coherence fr) (map (coherence src) bins)
        \<and> fr_i (fold (accumulate ar src) bins fr') > maxBufferSize)"
  unfolding collected_dropped[OF guard] accumulate_fold_phase accumulate_fold_magnitude
    accumulate_fold_coherence accumulate_fold_cursor
  using guard by simp

theorem dropped_write_keeps_sums_witness:
  "fr_i (example_frame\<lparr>fr_i := 36\<rparr>) > 24
   \<and> (\<exists>fr'. collected exact_arith 24 0 0 example_ac example_c (example_frame\<lparr>fr_i := 36\<rparr>) = Inr fr'
        \<and> fr_critical fr' = [''out of range'']
        \<and> fr_i fr' = 36 \<and> fr_verticiesCount fr' = 1
        \<and> m_magnitude (fr_value fr') = 5 \<and> fr_coherence fr' = 2
        \<and> m_magnitude (fr_value (fold (accumulate exact_arith example_source) [0, 1, 2] fr')) = 8
        \<and> fr_coherence (fold (accumulate exact_arith example_source) [0, 1, 2] fr') = 5)"
proof -
  have g: "fr_i (example_frame\<lparr>fr_i := 36\<rparr>) > 24" by simp
  from dropped_write_keeps_sums[OF g, of exact_arith 0 0 example_ac example_c example_source]
  obtain fr' where "collected exact_arith 24 0 0 example_ac example_c (example_frame\<lparr>fr_i := 36\<rparr>) = Inr fr'"
    and "fr_critical fr' = fr_critical (example_frame\<lparr>fr_i := 36\<rparr>) @ [''out of range'']"
    and "fr_i fr' = fr_i (example_frame\<lparr>fr_i := 36\<rparr>)"
    and "fr_verticiesCount fr' = fr_verticiesCount (example_frame\<lparr>fr_i := 36\<rparr>)"
    and "fr_value fr' = fr_value (example_frame\<lparr>fr_i := 36\<rparr>)"
    and "fr_coherence fr' = fr_coherence (example_frame\<lparr>fr_i := 36\<rparr>)"
    and "m_magnitude (fr_value (fold (accumulate exact_arith example_source) [0, 1, 2] fr')) =
            foldl (float_add exact_arith) (m_magnitude (fr_value (example_frame\<lparr>fr_i := 36\<rparr>)))
              (map (magnitudeRaw example_source) [0, 1, 2])"
    and "fr_coherence (fold (accumulate exact_arith example_source) [0, 1, 2] fr') =
            foldl (float_add exact_arith) (fr_coherence (example_frame\<lparr>fr_i := 36\<rparr>))
              (map (coherence example_source) [0, 1, 2])"
    by blast
  then have "\<exists>fr'. collected exact_arith 24 0 0 example_ac example_c (example_frame\<lparr>fr_i := 36\<rparr>) = Inr fr'
        \<and> fr_critical fr' = [''out of range'']
        \<and> fr_i fr' = 36 \<and> fr_verticiesCount fr' = 1
        \<and> m_magnitude (fr_value fr') = 5 \<and> fr_coherence fr' = 2
        \<and> m_magnitude (fr_value (fold (accumulate exact_arith example_source) [0, 1, 2] fr')) = 8
        \<and> fr_coherence (fold (accumulate exact_arith example_source) [0, 1, 2] fr') = 5"
    by (simp add: example_frame_def exact_arith_def example_source_def)
  with g show ?thesis by blast
qed

section \<open>The capacity of the vertex array\<close>

lemma unat_capacity:
  "unat (maxBufferSize_of r) = (unat (m_pointsPerOctave r) * 12 * 12) mod 4294967296"
proof -
  have "m_pointsPerOctave r * 12 * 12 = m_pointsPerOctave r * 144" by simp
  then have "unat (maxBufferSize_of r) = unat (m_pointsPerOctave r * 144)"
    by (simp only: maxBufferSize_of_def)
  also have "\<dots> = (unat (m_pointsPerOctave r) * unat (144 :: uint)) mod 2 ^ LENGTH(32)"
    by (rule unat_word_ariths(2))
  finally show ?thesis by (simp add: mult.commute)
qed

lemma segments_pass:
  assumes "m_source (xy r) = Some src" and "active src" and "size_s src \<noteq> 0"
    and d: "it src (m_pointsPerOctave r) = segments n"
    and fits: "12 * n \<le> unat (maxBufferSize_of r)"
  shows "\<exists>r'. renderSeries ar it r = Inr r'
     \<and> length (m_vertices (xy r')) = unat (maxBufferSize_of r)"
proof -
  let ?mx = "maxBufferSize_of r"
  let ?b = "resizeVertices ar ?mx (xy r)"
  let ?fr0 = "initial_frame ar (m_vertices ?b)"
  have l: "length (fr_vertices ?fr0) = unat ?mx"
    by (simp add: initial_frame_def resizeVertices_length)
  have i: "unat (fr_i ?fr0) + 12 * n \<le> length (fr_vertices ?fr0)"
    using fits by (simp add: initial_frame_def resizeVertices_length)
  from segments_run[OF l i, of ar src] obtain fr where
    it: "iterate ar src ?mx (segments n) ?fr0 = Inr fr"
    and k: "fr_verticiesCount fr = fr_verticiesCount ?fr0 + of_nat n"
    and lf: "length (fr_vertices fr) = length (fr_vertices ?fr0)"
    by blast
  have "unat (of_nat n :: uint) \<le> n" by (simp add: unat_of_nat)
  then have "12 * unat (fr_verticiesCount fr) \<le> length (fr_vertices fr)"
    using k lf l fits by (simp add: initial_frame_def)
  from upload_ok[OF this, of r ?mx ?b] show ?thesis
    unfolding renderSeries_active[OF assms(1-3)] d it using lf l by simp
qed

text \<open>
  Claim C2 says that for every configured points per octave the capacity equals the points
  per octave times the maximum number of octave bands times the points per segment. The
  source computes \<open>m_pointsPerOctave * 12 * 12\<close> in \<open>unsigned int\<close>. With one point per
  octave a pass leaves an array of 144 floats, so the two fixed factors multiply to 144. With
  29826162 points per octave the product is 4294967328, beyond \<open>2 ^ 32\<close>, and a pass leaves
  an array of 32 floats: the capacity is not the product.
\<close>

theorem capacity_wraps_counterexample:
  "vertices_size_after
     (renderSeries exact_arith two_segments (example_renderer\<lparr>m_pointsPerOctave := 1\<rparr>)) = Inr 144
   \<and> vertices_size_after (renderSeries exact_arith two_segments wide_renderer) = Inr 32
   \<and> unat (m_pointsPerOctave wide_renderer) * 144 = 4294967328
   \<and> vertices_size_after (renderSeries exact_arith two_segments wide_renderer)
       \<noteq> Inr (unat (m_pointsPerOctave wide_renderer) * 144)"
proof -
  have w: "m_source (xy wide_renderer) = Some example_source"
    by (simp add: wide_renderer_def example_renderer_def)
  have cw: "unat (maxBufferSize_of wide_renderer) = 32"
    by (simp add: unat_capacity wide_renderer_def)
  have c1: "unat (maxBufferSize_of (example_renderer\<lparr>m_pointsPerOctave := 1\<rparr>)) = 144"
    by (simp add: unat_capacity)
  from segments_pass[OF w example_source_facts(2,3), of two_segments 2 exact_arith]
  have a: "vertices_size_after (renderSeries exact_arith two_segments wide_renderer) = Inr 32"
    by (auto simp: two_segments_def cw vertices_size_after_def)
  from segments_pass[OF example_source_facts, of two_segments 2 exact_arith]
  have b: "vertices_size_after
     (renderSeries exact_arith two_segments (example_renderer\<lparr>m_pointsPerOctave := 1\<rparr>)) = Inr 144"
    by (auto simp: two_segments_def c1 vertices_size_after_def)
  have p: "unat (m_pointsPerOctave wide_renderer) * 144 = 4294967328"
    by (simp add: wide_renderer_def)
  show ?thesis unfolding a b p by simp
qed

text \<open>
  Claim C2, amended. In a render pass on an active, non-empty source that returns, whatever
  the iteration does, the vertex array has \<open>(pointsPerOctave * 12 * 12) mod 2 ^ 32\<close> floats
  afterwards; when \<open>pointsPerOctave * 144 < 2 ^ 32\<close> that is \<open>pointsPerOctave * 12 * 12\<close>.
  The two factors are the literals of the source, whose comment on that line reads
  \<open>max octave count: 11\<close>. The array is resized only if its size differs from the capacity,
  and the store of the GPU buffer is allocated anew only if the array was resized or a refresh
  was already pending.
\<close>

theorem capacity_is_fixed_formula:
  assumes src: "m_source (xy r) = Some src" and act: "active src" and sz: "size_s src \<noteq> 0"
    and ret: "renderSeries ar iterateForSpline r = Inr r'"
  shows "length (m_vertices (xy r')) = (unat (m_pointsPerOctave r) * 12 * 12) mod 4294967296
     \<and> (unat (m_pointsPerOctave r) * 144 < 4294967296 \<longrightarrow>
          length (m_vertices (xy r')) = unat (m_pointsPerOctave r) * 12 * 12)
     \<and> m_vertices (resizeVertices ar (maxBufferSize_of r) (xy r)) =
         (if length (m_vertices (xy r)) = length (m_vertices (xy r'))
          then m_vertices (xy r)
          else resize (length (m_vertices (xy r'))) (float_zero ar) (m_vertices (xy r)))
     \<and> gl_allocated (xy r') =
         (if length (m_vertices (xy r)) = length (m_vertices (xy r'))
             \<and> \<not> m_refreshBuffers (xy r)
          then gl_allocated (xy r)
          else length (m_vertices (xy r')))"
proof -
  let ?mx = "maxBufferSize_of r"
  let ?b = "resizeVertices ar ?mx (xy r)"
  from ret obtain fr where
    it: "iterate ar src ?mx (iterateForSpline src (m_pointsPerOctave r))
           (initial_frame ar (m_vertices ?b)) = Inr fr"
    and up: "upload r ?mx ?b fr = Inr r'"
    unfolding renderSeries_active[OF src act sz] by (auto split: sum.splits)
  have "length (fr_vertices fr) = unat ?mx"
    using iterate_length[OF it] by (simp add: initial_frame_def resizeVertices_length)
  then have len: "length (m_vertices (xy r')) = unat ?mx"
    unfolding upload_Inr(2)[OF up] by simp
  have m: "length (m_vertices (xy r')) = (unat (m_pointsPerOctave r) * 12 * 12) mod 4294967296"
    unfolding len by (rule unat_capacity)
  have n: "length (m_vertices (xy r')) = unat (m_pointsPerOctave r) * 12 * 12"
    if "unat (m_pointsPerOctave r) * 144 < 4294967296"
    using m that by simp
  have rs: "m_vertices ?b =
         (if length (m_vertices (xy r)) = unat ?mx then m_vertices (xy r)
          else resize (unat ?mx) (float_zero ar) (m_vertices (xy r)))"
    by (simp add: resizeVertices_def)
  have al: "gl_allocated (xy r') =
         (if length (m_vertices (xy r)) = unat ?mx \<and> \<not> m_refreshBuffers (xy r)
          then gl_allocated (xy r) else unat ?mx)"
    unfolding upload_Inr(2)[OF up] by (simp add: resizeVertices_def)
  show ?thesis using m n rs al unfolding len[symmetric] by blast
qed

theorem capacity_is_fixed_formula_witness:
  "m_source (xy (example_renderer\<lparr>m_pointsPerOctave := 1\<rparr>)) = Some example_source
   \<and> active example_source \<and> size_s example_source \<noteq> 0
   \<and> unat (m_pointsPerOctave (example_renderer\<lparr>m_pointsPerOctave := 1\<rparr>)) * 144 < 4294967296
   \<and> (\<exists>r'. renderSeries exact_arith (\<lambda>src ppo. segments 2)
              (example_renderer\<lparr>m_pointsPerOctave := 1\<rparr>) = Inr r'
         \<and> length (m_vertices (xy r')) = 144 \<and> gl_allocated (xy r') = 144)"
proof -
  from example_pass_returns[of 2] obtain r' where
    r: "renderSeries exact_arith (\<lambda>src ppo. segments 2)
          (example_renderer\<lparr>m_pointsPerOctave := 1\<rparr>) = Inr r'"
    by auto
  have b: "unat (m_pointsPerOctave (example_renderer\<lparr>m_pointsPerOctave := 1\<rparr>)) * 144 < 4294967296"
    by simp
  note t = capacity_is_fixed_formula[OF example_source_facts r]
  from t[THEN conjunct2, THEN conjunct1] b
  have l: "length (m_vertices (xy r')) = 144" by simp
  from t[THEN conjunct2, THEN conjunct2, THEN conjunct2]
  have "gl_allocated (xy r') = 144"
    unfolding l by (simp add: example_renderer_def)
  with l r example_source_facts b show ?thesis by blast
qed

section \<open>The coherence settings\<close>

text \<open>
  Claim C10. Two render passes that start from states differing only in the coherence flag
  and the coherence threshold end alike: both fail, or both return with the same vertex
  array, the same uploaded floats, the same vertex count and the same reports. The two
  settings are read only when the uniforms are set.
\<close>

theorem coherence_settings_do_not_reach_vertices:
  "case renderSeries ar iterateForSpline r of
     Inl e \<Rightarrow>
       renderSeries ar iterateForSpline (r\<lparr>m_coherence := g, m_coherenceThreshold := t\<rparr>) = Inl e
   | Inr r1 \<Rightarrow>
       (\<exists>r2. renderSeries ar iterateForSpline (r\<lparr>m_coherence := g, m_coherenceThreshold := t\<rparr>)
               = Inr r2
          \<and> m_vertices (xy r2) = m_vertices (xy r1)
          \<and> gl_uploaded (xy r2) = gl_uploaded (xy r1)
          \<and> gl_drawn (xy r2) = gl_drawn (xy r1)
          \<and> critical (xy r2) = critical (xy r1))"
proof (cases "m_source (xy r)")
  case None
  then show ?thesis by (simp add: renderSeries_def)
next
  case (Some src)
  let ?r' = "r\<lparr>m_coherence := g, m_coherenceThreshold := t\<rparr>"
  have src': "m_source (xy ?r') = Some src" using Some by simp
  show ?thesis
  proof (cases "\<not> active src \<or> size_s src = 0")
    case True
    show ?thesis
      unfolding renderSeries_idle[OF Some True] renderSeries_idle[OF src' True] by simp
  next
    case False
    then have act: "active src" and sz: "size_s src \<noteq> 0" by simp_all
    have mx: "maxBufferSize_of ?r' = maxBufferSize_of r" by (simp add: maxBufferSize_of_def)
    show ?thesis
      unfolding renderSeries_active[OF Some act sz] renderSeries_active[OF src' act sz] mx
      by (simp add: upload_def split: sum.splits)
  qed
qed

theorem coherence_settings_do_not_reach_vertices_witness:
  "\<exists>r1 r2. renderSeries exact_arith (\<lambda>src ppo. segments 2)
              (example_renderer\<lparr>m_pointsPerOctave := 1\<rparr>) = Inr r1
     \<and> renderSeries exact_arith (\<lambda>src ppo. segments 2)
          (example_renderer\<lparr>m_pointsPerOctave := 1, m_coherence := True,
             m_coherenceThreshold := 1 / 2\<rparr>) = Inr r2
     \<and> m_vertices (xy r2) = m_vertices (xy r1)
     \<and> gl_uploaded (xy r2) = gl_uploaded (xy r1)
     \<and> gl_drawn (xy r2) = gl_drawn (xy r1)"
proof -
  from example_pass_returns[of 2] obtain r1 where
    r: "renderSeries exact_arith (\<lambda>src ppo. segments 2)
          (example_renderer\<lparr>m_pointsPerOctave := 1\<rparr>) = Inr r1"
    by auto
  from coherence_settings_do_not_reach_vertices
         [where ar = exact_arith and iterateForSpline = "\<lambda>src ppo. segments 2"
            and r = "example_renderer\<lparr>m_pointsPerOctave := 1\<rparr>" and g = True and t = "1 / 2"]
  show ?thesis unfolding r by auto
qed
section \<open>Rendering twice\<close>

text \<open>
  Claim C8. When a render pass returns, a second pass on the state it left, with the same
  source, the same points per octave and the same iteration, returns as well, draws the same
  number of vertices and leaves the same floats in the written region of the vertex array,
  the first \<open>12 * verticiesCount\<close> floats; the same floats are uploaded. The iteration is a
  function of the source and of the points per octave.
\<close>

theorem render_twice_same_vertices:
  assumes first: "renderSeries ar iterateForSpline r = Inr r1"
  shows "\<exists>r2. renderSeries ar iterateForSpline r1 = Inr r2
     \<and> gl_drawn (xy r2) = gl_drawn (xy r1)
     \<and> take (12 * unat (gl_drawn (xy r1))) (m_vertices (xy r2)) =
         take (12 * unat (gl_drawn (xy r1))) (m_vertices (xy r1))
     \<and> gl_uploaded (xy r2) = gl_uploaded (xy r1)"
proof (cases "m_source (xy r)")
  case None
  with first show ?thesis by (simp add: renderSeries_no_source)
next
  case (Some src)
  show ?thesis
  proof (cases "\<not> active src \<or> size_s src = 0")
    case True
    from first have "r1 = r" unfolding renderSeries_idle[OF Some True] by simp
    then show ?thesis using renderSeries_idle[OF Some True] by simp
  next
    case False
    then have act: "active src" and sz: "size_s src \<noteq> 0" by simp_all
    let ?mx = "maxBufferSize_of r"
    let ?b = "resizeVertices ar ?mx (xy r)"
    let ?d = "iterateForSpline src (m_pointsPerOctave r)"
    from first obtain fr where
      it: "iterate ar src ?mx ?d (initial_frame ar (m_vertices ?b)) = Inr fr"
      and up: "upload r ?mx ?b fr = Inr r1"
      unfolding renderSeries_active[OF Some act sz] by (auto split: sum.splits)
    note r1 = upload_Inr(2)[OF up]
    have fit: "12 * unat (fr_verticiesCount fr) \<le> length (fr_vertices fr)"
      by (rule upload_Inr(1)[OF up])
    have len: "length (fr_vertices fr) = unat ?mx"
      using iterate_length[OF it] by (simp add: initial_frame_def resizeVertices_length)
    have src1: "m_source (xy r1) = Some src"
      unfolding r1 using Some by (simp add: resizeVertices_source)
    have ppo1: "m_pointsPerOctave r1 = m_pointsPerOctave r" unfolding r1 by simp
    have mx1: "maxBufferSize_of r1 = ?mx" using ppo1 by (simp add: maxBufferSize_of_def)
    have vs1: "m_vertices (xy r1) = fr_vertices fr" unfolding r1 by simp
    have dr1: "gl_drawn (xy r1) = fr_verticiesCount fr" unfolding r1 by simp
    have upl1: "gl_uploaded (xy r1) = take (12 * unat (fr_verticiesCount fr)) (fr_vertices fr)"
      unfolding r1 by simp
    have same: "resizeVertices ar ?mx (xy r1) = xy r1"
      by (rule resizeVertices_same) (simp add: vs1 len)
    have a0: "agree (initial_frame ar (m_vertices ?b)) (initial_frame ar (m_vertices (xy r1)))"
      by (rule agreeI) (simp_all add: initial_frame_def resizeVertices_length vs1 len)
    from iterate_agree[OF a0, of ar src ?mx ?d] it
    obtain fr2 where
      it2: "iterate ar src ?mx ?d (initial_frame ar (m_vertices (xy r1))) = Inr fr2"
      and a: "agree fr fr2"
      by (cases "iterate ar src ?mx ?d (initial_frame ar (m_vertices (xy r1)))") simp_all
    from a have k: "fr_verticiesCount fr2 = fr_verticiesCount fr"
      and l2: "length (fr_vertices fr2) = length (fr_vertices fr)"
      and pre: "\<forall>j < unat (fr_i fr). fr_vertices fr ! j = fr_vertices fr2 ! j"
      by (simp_all add: agree_def)
    have "cursor_counts (initial_frame ar (m_vertices ?b))"
      by (simp add: cursor_counts_def initial_frame_def)
    from iterate_cursor_counts[OF this it] have cc: "fr_i fr = 12 * fr_verticiesCount fr"
      by (simp add: cursor_counts_def)
    have "unat (12 :: uint) * unat (fr_verticiesCount fr) < 2 ^ LENGTH(32)"
      using fit len unat_uint_bound[of ?mx] by simp
    then have "unat (12 * fr_verticiesCount fr) = unat (12 :: uint) * unat (fr_verticiesCount fr)"
      by (simp only: unat_mult_lem)
    then have cur: "unat (fr_i fr) = 12 * unat (fr_verticiesCount fr)" using cc by simp
    have tk: "take (12 * unat (fr_verticiesCount fr)) (fr_vertices fr2) =
              take (12 * unat (fr_verticiesCount fr)) (fr_vertices fr)"
    proof (rule nth_take_lemma)
      show "12 * unat (fr_verticiesCount fr) \<le> length (fr_vertices fr2)" using fit l2 by simp
      show "12 * unat (fr_verticiesCount fr) \<le> length (fr_vertices fr)" by (rule fit)
      show "j < 12 * unat (fr_verticiesCount fr) \<longrightarrow> fr_vertices fr2 ! j = fr_vertices fr ! j" for j
        using pre cur by simp
    qed
    have fit2: "12 * unat (fr_verticiesCount fr2) \<le> length (fr_vertices fr2)"
      using fit k l2 by simp
    have "renderSeries ar iterateForSpline r1 = upload r1 ?mx (xy r1) fr2"
      unfolding renderSeries_active[OF src1 act sz] mx1 ppo1 same it2 by simp
    also note upload_ok[OF fit2]
    finally show ?thesis using k tk upl1 dr1 vs1 by simp
  qed
qed

theorem render_twice_same_vertices_witness:
  "\<exists>r1 r2. renderSeries exact_arith (\<lambda>src ppo. segments 2)
              (example_renderer\<lparr>m_pointsPerOctave := 1\<rparr>) = Inr r1
     \<and> renderSeries exact_arith (\<lambda>src ppo. segments 2) r1 = Inr r2
     \<and> gl_drawn (xy r2) = gl_drawn (xy r1)
     \<and> take (12 * unat (gl_drawn (xy r1))) (m_vertices (xy r2)) =
         take (12 * unat (gl_drawn (xy r1))) (m_vertices (xy r1))
     \<and> gl_uploaded (xy r2) = gl_uploaded (xy r1)"
proof -
  from example_pass_returns[of 2] obtain r1 where
    r: "renderSeries exact_arith (\<lambda>src ppo. segments 2)
          (example_renderer\<lparr>m_pointsPerOctave := 1\<rparr>) = Inr r1"
    by auto
  from render_twice_same_vertices[OF r] r show ?thesis by blast
qed

section \<open>The guard against overflow\<close>

text \<open>
  Claim C1 says that before each write the cursor plus 12 is checked against the capacity,
  that a write beyond the capacity is reported and dropped, and that twelve times the vertex
  count never exceeds the capacity. The guard of \<open>collected\<close> is \<open>i > maxBufferSize\<close>.
  With one point per octave the capacity is 144 floats. Twelve segments fill the array and
  the pass returns with twelve vertices. With a thirteenth segment the cursor is 144: the
  guard lets it pass, nothing is reported, and the store to \<open>m_vertices[144]\<close> is outside
  the array.
\<close>

theorem thirteenth_segment_escapes_guard:
  "(\<exists>r'. renderSeries exact_arith (\<lambda>src ppo. segments 12)
            (example_renderer\<lparr>m_pointsPerOctave := 1\<rparr>) = Inr r'
        \<and> length (m_vertices (xy r')) = 144 \<and> gl_drawn (xy r') = 12)
   \<and> renderSeries exact_arith (\<lambda>src ppo. segments 13)
        (example_renderer\<lparr>m_pointsPerOctave := 1\<rparr>) = Inl OutOfRange"
proof
  from example_iteration[of 12] obtain fr where
    it: "iterate exact_arith example_source 144 (segments 12)
           (initial_frame exact_arith
              (m_vertices (resizeVertices exact_arith 144
                 (xy (example_renderer\<lparr>m_pointsPerOctave := 1\<rparr>))))) = Inr fr"
    and i: "fr_i fr = 12 * of_nat 12"
    and k: "fr_verticiesCount fr = of_nat 12" and l: "length (fr_vertices fr) = 144"
    by auto
  have fit: "12 * unat (fr_verticiesCount fr) \<le> length (fr_vertices fr)"
    using k l by simp
  show "\<exists>r'. renderSeries exact_arith (\<lambda>src ppo. segments 12)
            (example_renderer\<lparr>m_pointsPerOctave := 1\<rparr>) = Inr r'
        \<and> length (m_vertices (xy r')) = 144 \<and> gl_drawn (xy r') = 12"
    unfolding renderSeries_active[OF example_source_facts] example_capacity it
    using upload_ok[OF fit] k l by simp
  let ?fa = "accumulate exact_arith example_source 0 fr"
  have "fr_i ?fa = 144" "length (fr_vertices ?fa) = unat (144 :: uint)"
    using i l by (simp_all add: accumulate_def Let_def)
  from collected_at_capacity[OF this]
  have "iterate exact_arith example_source 144 (segments 1) fr = Inl OutOfRange"
    by simp
  then have "iterate exact_arith example_source 144 (segments (12 + 1))
           (initial_frame exact_arith
              (m_vertices (resizeVertices exact_arith 144
                 (xy (example_renderer\<lparr>m_pointsPerOctave := 1\<rparr>))))) = Inl OutOfRange"
    unfolding segments_add it by simp
  then show "renderSeries exact_arith (\<lambda>src ppo. segments 13)
        (example_renderer\<lparr>m_pointsPerOctave := 1\<rparr>) = Inl OutOfRange"
    unfolding renderSeries_active[OF example_source_facts] example_capacity by simp
qed

theorem thirteenth_segment_escapes_guard_witness:
  "m_source (xy (example_renderer\<lparr>m_pointsPerOctave := 1\<rparr>)) = Some example_source
   \<and> active example_source \<and> size_s example_source \<noteq> 0
   \<and> unat (maxBufferSize_of (example_renderer\<lparr>m_pointsPerOctave := 1\<rparr>)) = 144
   \<and> renderSeries exact_arith (\<lambda>src ppo. segments 13)
        (example_renderer\<lparr>m_pointsPerOctave := 1\<rparr>) = Inl OutOfRange"
  using thirteenth_segment_escapes_guard example_source_facts
  by (simp add: example_capacity)

section \<open>The degenerate direction\<close>

text \<open>
  Claim C4. \<open>beforeSpline\<close> has no guard: it divides the mean phase by its magnitude
  whatever that magnitude is. Let the mean phase of a closed band have magnitude zero, let
  the division of that mean phase by zero give the undefined direction (both parts the
  undefined float \<open>nan\<close>), and let the undefined direction stay undefined when it is
  multiplied by a float, as in IEEE 754 arithmetic. Then \<open>beforeSpline\<close> returns the
  undefined direction as the control point, and the iteration goes on with that value: it is
  neither caught nor replaced.
\<close>

theorem beforeSpline_propagates_undefined:
  assumes zero: "complex_abs ar (complex_div_count ar (m_phase (fr_value fr)) count) = float_zero ar"
    and div0: "complex_div ar (complex_div_count ar (m_phase (fr_value fr)) count) (float_zero ar)
                 = \<lparr>real_c = nan, imag_c = nan\<rparr>"
    and mul: "\<forall>x. complex_mul ar \<lparr>real_c = nan, imag_c = nan\<rparr> x = \<lparr>real_c = nan, imag_c = nan\<rparr>"
  shows "beforeSpline ar (fr_value fr) (fr_coherence fr) count = \<lparr>real_c = nan, imag_c = nan\<rparr>
     \<and> iterate ar src maxBufferSize (CallBeforeSpline count k) fr =
         iterate ar src maxBufferSize (k \<lparr>real_c = nan, imag_c = nan\<rparr>) fr"
proof -
  have "beforeSpline ar (fr_value fr) (fr_coherence fr) count = \<lparr>real_c = nan, imag_c = nan\<rparr>"
    using zero div0 mul by (simp add: beforeSpline_def Let_def)
  then show ?thesis by simp
qed

theorem beforeSpline_propagates_undefined_witness:
  "m_phase (fr_value cancelling_frame) = \<lparr>real_c = Some 0, imag_c = Some 0\<rparr>
   \<and> m_magnitude (fr_value cancelling_frame) = Some 2
   \<and> complex_abs undefined_arith
        (complex_div_count undefined_arith (m_phase (fr_value cancelling_frame)) 2)
       = float_zero undefined_arith
   \<and> beforeSpline undefined_arith (fr_value cancelling_frame) (fr_coherence cancelling_frame) 2
       = \<lparr>real_c = None, imag_c = None\<rparr>"
proof -
  have p: "m_phase (fr_value cancelling_frame) = \<lparr>real_c = Some 0, imag_c = Some 0\<rparr>"
    and m: "m_magnitude (fr_value cancelling_frame) = Some 2"
    by (simp_all add: cancelling_frame_def accumulate_def Let_def add_phase_def
        add_magnitude_def initial_frame_def undefined_arith_def cancelling_source_def opt_add_def)
  have z: "complex_abs undefined_arith
        (complex_div_count undefined_arith (m_phase (fr_value cancelling_frame)) 2)
       = float_zero undefined_arith"
    unfolding p by (simp add: undefined_arith_def opt_abs_def opt_div_def)
  have d: "complex_div undefined_arith
        (complex_div_count undefined_arith (m_phase (fr_value cancelling_frame)) 2)
        (float_zero undefined_arith) = \<lparr>real_c = None, imag_c = None\<rparr>"
    unfolding p by (simp add: undefined_arith_def opt_div_def)
  have u: "\<forall>x. complex_mul undefined_arith \<lparr>real_c = None, imag_c = None\<rparr> x
             = \<lparr>real_c = None, imag_c = None\<rparr>"
    by (simp add: undefined_arith_def opt_mul_def)
  from beforeSpline_propagates_undefined[OF z d u] p m z show ?thesis by blast
qed

end
